theory Spec2Isabelle
  imports Complex_Main
begin

section \<open>pdftilecut: a model of \<^verbatim>\<open>main.go\<close>\<close>

text \<open>
  The program reads the text form of a PDF (qpdf's QDF output), finds the page objects
  with regular expressions, cuts each page into a grid of tiles, and writes the new
  objects back into the text. The model below follows \<^verbatim>\<open>main.go\<close> function by
  function. Three things of the Go runtime are modelled rather than taken from the
  repository:

  \<^item> \<^verbatim>\<open>float32\<close> is the IEEE 754 binary32 format: a value is a real number with a
    24-bit significand and an exponent between -149 and 104, an infinity, or a NaN.
    Every operation gives the exact result rounded to the nearest value, ties to the
    even significand, and an infinity beyond the largest value; operations are rounded
    one by one (Go fuses no multiplication with an addition on amd64).
    The sign of a zero is not kept: it shows only in the sign of a quotient by zero
    and in the text that \<^verbatim>\<open>%f\<close> prints. An untyped constant of Go is an exact number,
    rounded when it is converted to \<^verbatim>\<open>float32\<close>.
  \<^item> \<^verbatim>\<open>int\<close> has 64 bits: \<^verbatim>\<open>strconv.Atoi\<close> reports a range error, the sums that
    make object ids wrap around, and the conversion of a \<^verbatim>\<open>float64\<close> that has no
    value in the range of \<^verbatim>\<open>int\<close> gives a result that Go leaves to the platform.
  \<^item> the package \<^verbatim>\<open>regexp\<close> is a backtracking matcher with Go's leftmost-first
    preference, for the operators the patterns of \<^verbatim>\<open>main.go\<close> use.
\<close>

subsection \<open>Numbers: \<^verbatim>\<open>float32\<close> and \<^verbatim>\<open>int\<close>\<close>

datatype float32 = Fin real | PosInf | NegInf | NaN

text \<open>The number of binary digits of a natural number.\<close>

fun nbits :: "nat \<Rightarrow> nat" where
  "nbits n = (if n = 0 then 0 else Suc (nbits (n div 2)))"

declare nbits.simps [simp del]

text \<open>
  The distance between neighbouring \<^verbatim>\<open>float32\<close> values around \<open>x\<close>: \<open>2 ^ (e - 23)\<close>
  for \<open>2 ^ e \<le> \<bar>x\<bar> < 2 ^ (e + 1)\<close> and \<open>- 126 \<le> e\<close>, and \<open>2 ^ - 149\<close> for a smaller \<open>x\<close>.
\<close>

definition quantum :: "real \<Rightarrow> real" where
  "quantum x = 2 ^ (nbits (nat \<lfloor>\<bar>x\<bar> * 2 ^ 126\<rfloor>) - 1) / 2 ^ 149"

text \<open>The nearest integer, the even one of two that are equally near.\<close>

definition roundEven :: "real \<Rightarrow> int" where
  "roundEven y =
     (let f = \<lfloor>y\<rfloor> in
      if y - of_int f < 1 / 2 then f
      else if 1 / 2 < y - of_int f then f + 1
      else if even f then f else f + 1)"

definition nearest32 :: "real \<Rightarrow> real" where
  "nearest32 x = of_int (roundEven (x / quantum x)) * quantum x"

text \<open>Rounding of an exact result to \<^verbatim>\<open>float32\<close>.\<close>

definition round32 :: "real \<Rightarrow> float32" where
  "round32 x =
     (let y = nearest32 x in
      if 2 ^ 128 \<le> \<bar>y\<bar> then (if 0 < x then PosInf else NegInf) else Fin y)"

fun fneg :: "float32 \<Rightarrow> float32" where
  "fneg (Fin a) = Fin (- a)"
| "fneg PosInf = NegInf"
| "fneg NegInf = PosInf"
| "fneg NaN = NaN"

text \<open>The comparisons \<^verbatim>\<open><=\<close> and \<^verbatim>\<open><\<close>; they are false when an operand is a NaN.\<close>

fun fle :: "float32 \<Rightarrow> float32 \<Rightarrow> bool" where
  "fle NaN b = False"
| "fle a NaN = False"
| "fle NegInf b = True"
| "fle a PosInf = True"
| "fle PosInf b = False"
| "fle a NegInf = False"
| "fle (Fin a) (Fin b) = (a \<le> b)"

fun flt :: "float32 \<Rightarrow> float32 \<Rightarrow> bool" where
  "flt NaN b = False"
| "flt a NaN = False"
| "flt PosInf b = False"
| "flt a NegInf = False"
| "flt NegInf b = True"
| "flt a PosInf = True"
| "flt (Fin a) (Fin b) = (a < b)"

text \<open>The operations \<^verbatim>\<open>+\<close>, \<^verbatim>\<open>-\<close>, \<^verbatim>\<open>*\<close> and \<^verbatim>\<open>/\<close> on \<^verbatim>\<open>float32\<close>.\<close>

fun fadd :: "float32 \<Rightarrow> float32 \<Rightarrow> float32" where
  "fadd NaN b = NaN"
| "fadd a NaN = NaN"
| "fadd PosInf NegInf = NaN"
| "fadd NegInf PosInf = NaN"
| "fadd PosInf b = PosInf"
| "fadd NegInf b = NegInf"
| "fadd a PosInf = PosInf"
| "fadd a NegInf = NegInf"
| "fadd (Fin a) (Fin b) = round32 (a + b)"

definition fsub :: "float32 \<Rightarrow> float32 \<Rightarrow> float32" where
  "fsub a b = fadd a (fneg b)"

fun fmul :: "float32 \<Rightarrow> float32 \<Rightarrow> float32" where
  "fmul NaN b = NaN"
| "fmul a NaN = NaN"
| "fmul (Fin a) (Fin b) = round32 (a * b)"
| "fmul (Fin a) PosInf = (if a = 0 then NaN else if 0 < a then PosInf else NegInf)"
| "fmul (Fin a) NegInf = (if a = 0 then NaN else if 0 < a then NegInf else PosInf)"
| "fmul PosInf (Fin b) = (if b = 0 then NaN else if 0 < b then PosInf else NegInf)"
| "fmul NegInf (Fin b) = (if b = 0 then NaN else if 0 < b then NegInf else PosInf)"
| "fmul PosInf PosInf = PosInf"
| "fmul PosInf NegInf = NegInf"
| "fmul NegInf PosInf = NegInf"
| "fmul NegInf NegInf = PosInf"

fun fdiv :: "float32 \<Rightarrow> float32 \<Rightarrow> float32" where
  "fdiv NaN b = NaN"
| "fdiv a NaN = NaN"
| "fdiv (Fin a) (Fin b) =
     (if b = 0 then (if a = 0 then NaN else if 0 < a then PosInf else NegInf)
      else round32 (a / b))"
| "fdiv (Fin a) PosInf = Fin 0"
| "fdiv (Fin a) NegInf = Fin 0"
| "fdiv PosInf (Fin b) = (if b < 0 then NegInf else PosInf)"
| "fdiv NegInf (Fin b) = (if b < 0 then PosInf else NegInf)"
| "fdiv PosInf b = NaN"
| "fdiv NegInf b = NaN"

text \<open>
  The conversion \<^verbatim>\<open>float32(n)\<close> of an \<^verbatim>\<open>int\<close>, and
  \<^verbatim>\<open>int(math.Ceil(float64(q)))\<close>: the ceiling is exact, and the conversion to \<^verbatim>\<open>int\<close> is
  defined by Go only for a value within the range of \<^verbatim>\<open>int\<close>; \<open>None\<close> stands for the
  result that depends on the platform.
\<close>

definition ofInt32 :: "int \<Rightarrow> float32" where
  "ofInt32 n = round32 (of_int n)"

definition ceilInt :: "float32 \<Rightarrow> int option" where
  "ceilInt q =
     (case q of
        Fin a \<Rightarrow> if - (2 ^ 63) \<le> \<lceil>a\<rceil> \<and> \<lceil>a\<rceil> < 2 ^ 63 then Some \<lceil>a\<rceil> else None
      | PosInf \<Rightarrow> None | NegInf \<Rightarrow> None | NaN \<Rightarrow> None)"

text \<open>A sum of \<^verbatim>\<open>int\<close> values wraps around within 64 bits.\<close>

definition wrap64 :: "int \<Rightarrow> int" where
  "wrap64 n = (n + 2 ^ 63) mod 2 ^ 64 - 2 ^ 63"

subsection \<open>The package strconv\<close>

datatype numError = ErrSyntax | ErrRange

definition isDigit :: "char \<Rightarrow> bool" where
  "isDigit c \<longleftrightarrow> c \<in> set ''0123456789''"

definition digitVal :: "char \<Rightarrow> nat" where
  "digitVal c = of_char c - of_char CHR ''0''"

definition decVal :: "string \<Rightarrow> nat" where
  "decVal ds = foldl (\<lambda>a c. 10 * a + digitVal c) 0 ds"

definition hasSign :: "string \<Rightarrow> bool" where
  "hasSign s \<longleftrightarrow> (case s of [] \<Rightarrow> False | c # cs \<Rightarrow> c = CHR ''-'' \<or> c = CHR ''+'')"

definition isNeg :: "string \<Rightarrow> bool" where
  "isNeg s \<longleftrightarrow> (case s of [] \<Rightarrow> False | c # cs \<Rightarrow> c = CHR ''-'')"

definition unsignedPart :: "string \<Rightarrow> string" where
  "unsignedPart s = (if hasSign s then tl s else s)"

text \<open>
  \<^verbatim>\<open>strconv.Atoi\<close>: an optional sign and decimal digits. The result is the value and
  the error; on a range error the value is the nearest bound of \<^verbatim>\<open>int64\<close>.
\<close>

definition Atoi :: "string \<Rightarrow> int \<times> numError option" where
  "Atoi s =
     (let ds = unsignedPart s in
      if ds = [] \<or> \<not> list_all isDigit ds then (0, Some ErrSyntax)
      else let v = (if isNeg s then - int (decVal ds) else int (decVal ds)) in
        if 2 ^ 63 - 1 < v then (2 ^ 63 - 1, Some ErrRange)
        else if v < - (2 ^ 63) then (- (2 ^ 63), Some ErrRange)
        else (v, None))"

text \<open>
  \<^verbatim>\<open>strconv.ParseFloat(s, 32)\<close> on decimal numerals without exponent: an optional
  sign, digits, at most one point, at least one digit. These are the only well-formed
  numerals over the characters that the patterns of \<^verbatim>\<open>main.go\<close> let through (sign,
  digits and point); exponents, hexadecimal numerals, \<^verbatim>\<open>inf\<close> and \<^verbatim>\<open>nan\<close> are not
  modelled. The result is the \<^verbatim>\<open>float32\<close> value nearest to the decimal numeral; a
  numeral that rounds beyond the largest value is returned as an infinity together
  with \<open>ErrRange\<close>.
\<close>

definition intPart :: "string \<Rightarrow> string" where
  "intPart ds = takeWhile (\<lambda>c. c \<noteq> CHR ''.'') ds"

definition fracPart :: "string \<Rightarrow> string" where
  "fracPart ds = (case dropWhile (\<lambda>c. c \<noteq> CHR ''.'') ds of [] \<Rightarrow> [] | c # cs \<Rightarrow> cs)"

definition decimalOk :: "string \<Rightarrow> bool" where
  "decimalOk ds \<longleftrightarrow>
     list_all isDigit (intPart ds) \<and> list_all isDigit (fracPart ds)
     \<and> (intPart ds \<noteq> [] \<or> fracPart ds \<noteq> [])"

definition decimalVal :: "string \<Rightarrow> real" where
  "decimalVal ds = real (decVal (intPart ds)) + real (decVal (fracPart ds)) / 10 ^ length (fracPart ds)"

definition ParseFloat32 :: "string \<Rightarrow> float32 \<times> numError option" where
  "ParseFloat32 s =
     (let ds = unsignedPart s in
      if \<not> decimalOk ds then (Fin 0, Some ErrSyntax)
      else (case round32 (decimalVal ds) of
              Fin v \<Rightarrow> (Fin (if isNeg s then - v else v), None)
            | f \<Rightarrow> (if isNeg s then NegInf else PosInf, Some ErrRange)))"

text \<open>Digits of \<^verbatim>\<open>strconv.FormatInt\<close>, and the decimal and base-26 formats.\<close>

definition digitChar :: "nat \<Rightarrow> char" where
  "digitChar d = ''0123456789abcdefghijklmnopqrstuvwxyz'' ! d"

function formatNat :: "nat \<Rightarrow> nat \<Rightarrow> string" where
  "formatNat b n =
     (if b < 2 \<or> n < b then [digitChar n]
      else formatNat b (n div b) @ [digitChar (n mod b)])"
  by pat_completeness auto
termination
  by (relation "measure (\<lambda>(b, n). n)") auto

declare formatNat.simps [simp del]

definition FormatInt :: "int \<Rightarrow> nat \<Rightarrow> string" where
  "FormatInt n b = (if n < 0 then CHR ''-'' # formatNat b (nat (- n)) else formatNat b (nat n))"

definition Itoa :: "int \<Rightarrow> string" where
  "Itoa n = FormatInt n 10"

subsection \<open>The package regexp\<close>

text \<open>
  A pattern is a term of the type \<open>re\<close>. Repetition is needed on character classes
  only. \<open>Bol\<close> is \<^verbatim>\<open>^\<close> under the flag \<^verbatim>\<open>m\<close> (start of the text or just after a
  newline), \<open>Bot\<close> is \<^verbatim>\<open>^\<close> without it, \<open>Eot\<close> is \<^verbatim>\<open>$\<close> without it. \<open>Grp n r\<close> is the
  n-th capturing group. The text is a list of bytes; the classes of the patterns
  below separate ASCII characters only, so matching bytes and matching UTF-8 code
  points give the same result.
\<close>

datatype cls = In "char list" | NotIn "char list"

fun inCls :: "cls \<Rightarrow> char \<Rightarrow> bool" where
  "inCls (In cs) c = (c \<in> set cs)"
| "inCls (NotIn cs) c = (c \<notin> set cs)"

datatype re = Lit string | One cls | Star cls | Plus cls | LazyStar cls
  | Bol | Bot | Eot | Opt re | Seq re re | Alt re re | Grp nat re

definition newline :: char where
  "newline = CHR 0x0A"

text \<open>
  A position is the byte before it (if any) and the rest of the text. The matcher is
  written with a continuation \<open>k\<close> for the rest of the pattern, so that a failure
  further on makes the matcher try the next alternative: the longer repetition first
  for \<open>Star\<close> and \<open>Plus\<close>, the shorter first for \<open>LazyStar\<close>, the left branch first for
  \<open>Alt\<close>, the presence first for \<open>Opt\<close>.
\<close>

type_synonym pos = "char option \<times> string"
type_synonym caps = "(nat \<times> string) list"
type_synonym found = "(pos \<times> caps) option"

fun starG :: "cls \<Rightarrow> char option \<Rightarrow> string \<Rightarrow> (pos \<Rightarrow> found) \<Rightarrow> found" where
  "starG p b [] k = k (b, [])"
| "starG p b (x # xs) k =
     (if inCls p x
      then (case starG p (Some x) xs k of Some r \<Rightarrow> Some r | None \<Rightarrow> k (b, x # xs))
      else k (b, x # xs))"

fun starL :: "cls \<Rightarrow> char option \<Rightarrow> string \<Rightarrow> (pos \<Rightarrow> found) \<Rightarrow> found" where
  "starL p b [] k = k (b, [])"
| "starL p b (x # xs) k =
     (case k (b, x # xs) of Some r \<Rightarrow> Some r
      | None \<Rightarrow> if inCls p x then starL p (Some x) xs k else None)"

definition oneOf :: "cls \<Rightarrow> pos \<Rightarrow> (pos \<Rightarrow> found) \<Rightarrow> found" where
  "oneOf p st k =
     (case snd st of [] \<Rightarrow> None | x # xs \<Rightarrow> if inCls p x then k (Some x, xs) else None)"

definition atBol :: "pos \<Rightarrow> bool" where
  "atBol st \<longleftrightarrow> fst st = None \<or> fst st = Some newline"

primrec mt :: "re \<Rightarrow> pos \<Rightarrow> caps \<Rightarrow> (pos \<Rightarrow> caps \<Rightarrow> found) \<Rightarrow> found" where
  "mt (Lit l) st cs k =
     (if take (length l) (snd st) = l
      then k (if l = [] then fst st else Some (last l), drop (length l) (snd st)) cs
      else None)"
| "mt (One p) st cs k = oneOf p st (\<lambda>st'. k st' cs)"
| "mt (Star p) st cs k = starG p (fst st) (snd st) (\<lambda>st'. k st' cs)"
| "mt (Plus p) st cs k = oneOf p st (\<lambda>st'. starG p (fst st') (snd st') (\<lambda>st''. k st'' cs))"
| "mt (LazyStar p) st cs k = starL p (fst st) (snd st) (\<lambda>st'. k st' cs)"
| "mt Bol st cs k = (if atBol st then k st cs else None)"
| "mt Bot st cs k = (if fst st = None then k st cs else None)"
| "mt Eot st cs k = (if snd st = [] then k st cs else None)"
| "mt (Opt r) st cs k = (case mt r st cs k of Some x \<Rightarrow> Some x | None \<Rightarrow> k st cs)"
| "mt (Seq r1 r2) st cs k = mt r1 st cs (\<lambda>st' cs'. mt r2 st' cs' k)"
| "mt (Alt r1 r2) st cs k = (case mt r1 st cs k of Some x \<Rightarrow> Some x | None \<Rightarrow> mt r2 st cs k)"
| "mt (Grp n r) st cs k =
     mt r st cs
       (\<lambda>st' cs'. k st' ((n, take (length (snd st) - length (snd st')) (snd st)) # cs'))"

primrec ngroups :: "re \<Rightarrow> nat" where
  "ngroups (Lit l) = 0"
| "ngroups (One p) = 0"
| "ngroups (Star p) = 0"
| "ngroups (Plus p) = 0"
| "ngroups (LazyStar p) = 0"
| "ngroups Bol = 0"
| "ngroups Bot = 0"
| "ngroups Eot = 0"
| "ngroups (Opt r) = ngroups r"
| "ngroups (Seq r1 r2) = max (ngroups r1) (ngroups r2)"
| "ngroups (Alt r1 r2) = max (ngroups r1) (ngroups r2)"
| "ngroups (Grp n r) = max n (ngroups r)"

text \<open>
  A match at a position, as Go's submatch slice: the whole match at index 0, then the
  groups, a group that took no part being the empty string.
\<close>

definition submatches :: "re \<Rightarrow> string \<Rightarrow> caps \<Rightarrow> string list" where
  "submatches r whole cs =
     whole # map (\<lambda>i. case map_of cs i of None \<Rightarrow> [] | Some v \<Rightarrow> v) [1..<Suc (ngroups r)]"

definition matchAt :: "re \<Rightarrow> char option \<Rightarrow> string \<Rightarrow> string list option" where
  "matchAt r b s =
     (case mt r (b, s) [] (\<lambda>st' cs. Some (st', cs)) of
        None \<Rightarrow> None
      | Some (st', cs) \<Rightarrow> Some (submatches r (take (length s - length (snd st')) s) cs))"

text \<open>\<^verbatim>\<open>FindStringSubmatch\<close>: the match at the leftmost position that has one.\<close>

fun findFrom :: "re \<Rightarrow> char option \<Rightarrow> string \<Rightarrow> string list option" where
  "findFrom r b [] = matchAt r b []"
| "findFrom r b (c # cs) =
     (case matchAt r b (c # cs) of Some m \<Rightarrow> Some m | None \<Rightarrow> findFrom r (Some c) cs)"

declare findFrom.simps [simp del]

definition FindStringSubmatch :: "re \<Rightarrow> string \<Rightarrow> string list option" where
  "FindStringSubmatch r s = findFrom r None s"

text \<open>
  The successive matches of a pattern cut the text into matches (\<open>Inr\<close>, with the
  submatches) and bytes outside of any match (\<open>Inl\<close>). After a match the search goes
  on behind it. No pattern of \<^verbatim>\<open>main.go\<close> used with \<^verbatim>\<open>FindAll\<close> or
  \<^verbatim>\<open>ReplaceAll\<close> matches the empty string; for an empty match the model steps over
  one byte.
\<close>

function segments :: "re \<Rightarrow> char option \<Rightarrow> string \<Rightarrow> (char + string list) list" where
  "segments r b [] = (case matchAt r b [] of None \<Rightarrow> [] | Some m \<Rightarrow> [Inr m])"
| "segments r b (c # cs) =
     (case matchAt r b (c # cs) of
        None \<Rightarrow> Inl c # segments r (Some c) cs
      | Some m \<Rightarrow>
          if hd m = [] then Inr m # Inl c # segments r (Some c) cs
          else Inr m # segments r (Some (last (hd m))) (drop (length (hd m)) (c # cs)))"
  by pat_completeness auto
termination
  by (relation "measure (\<lambda>(r, b, s). length s)") auto

declare segments.simps [simp del]

definition FindAllStringSubmatch :: "re \<Rightarrow> string \<Rightarrow> string list list" where
  "FindAllStringSubmatch r s = [m. Inr m \<leftarrow> segments r None s]"

text \<open>
  \<^verbatim>\<open>ReplaceAllString\<close>, with the replacement template given as a function of the
  submatches (\<^verbatim>\<open>${1}\<close> is \<open>m ! 1\<close>).
\<close>

definition ReplaceAllString :: "re \<Rightarrow> string \<Rightarrow> (string list \<Rightarrow> string) \<Rightarrow> string" where
  "ReplaceAllString r s repl =
     concat (map (\<lambda>g. case g of Inl c \<Rightarrow> [c] | Inr m \<Rightarrow> repl m) (segments r None s))"

text \<open>\<^verbatim>\<open>strings.Replace(s, old, new, 1)\<close>: the first occurrence only.\<close>

fun splitFirst :: "string \<Rightarrow> string \<Rightarrow> (string \<times> string) option" where
  "splitFirst old [] = (if old = [] then Some ([], []) else None)"
| "splitFirst old (c # cs) =
     (if take (length old) (c # cs) = old then Some ([], drop (length old) (c # cs))
      else map_option (\<lambda>(a, b). (c # a, b)) (splitFirst old cs))"

definition Replace1 :: "string \<Rightarrow> string \<Rightarrow> string \<Rightarrow> string" where
  "Replace1 s old new = (case splitFirst old s of None \<Rightarrow> s | Some (a, b) \<Rightarrow> a @ new @ b)"

text \<open>Notation for the patterns: sequences, \<^verbatim>\<open>\s\<close>, \<^verbatim>\<open>\d\<close>, \<^verbatim>\<open>.\<close> under the flag \<^verbatim>\<open>s\<close>.\<close>

definition seqs :: "re list \<Rightarrow> re" where
  "seqs rs = foldr Seq rs (Lit [])"

definition alts :: "re list \<Rightarrow> re" where
  "alts rs = foldr Alt (butlast rs) (last rs)"

definition spaceCls :: cls where
  "spaceCls = In [CHR 0x09, CHR 0x0A, CHR 0x0C, CHR 0x0D, CHR '' '']"

definition digitCls :: cls where
  "digitCls = In ''0123456789''"

definition anyCls :: cls where
  "anyCls = NotIn []"

subsection \<open>Constants, rectangles and pages\<close>

text \<open>The constants of lines 23 to 33 are untyped: their values are exact.\<close>

definition ptsInInch :: real where "ptsInInch = 72"
definition mmInInch :: real where "mmInInch = 25.4"
definition mmInCm :: real where "mmInCm = 10"
definition bleedMargin :: real where "bleedMargin = ptsInInch * 5 / 6"
definition trimMargin :: real where "trimMargin = ptsInInch / 6"
definition trimMarkLineWidth :: real where "trimMarkLineWidth = 0.5"

definition minPageDimension :: real where
  "minPageDimension = (bleedMargin + trimMargin + trimMarkLineWidth) * 2 * mmInInch / ptsInInch"

record rect =
  llx :: float32
  lly :: float32
  urx :: float32
  ury :: float32

definition mkRect :: "float32 \<Rightarrow> float32 \<Rightarrow> float32 \<Rightarrow> float32 \<Rightarrow> rect" where
  "mkRect a b c d = \<lparr>llx = a, lly = b, urx = c, ury = d\<rparr>"

definition isValid :: "rect \<Rightarrow> bool" where
  "isValid r \<longleftrightarrow> fle (llx r) (urx r) \<and> fle (lly r) (ury r)"

text \<open>The field \<^verbatim>\<open>id\<close> of the source is \<open>id_page\<close> here.\<close>

record page =
  id_page :: int
  number :: int
  tileX :: int
  tileY :: int
  mediaBox :: rect
  cropBox :: rect
  bleedBox :: rect
  trimBox :: rect
  contentIds :: "int list"
  parentId :: int
  raw :: string

text \<open>Go's zero value of the struct.\<close>

definition zeroPage :: page where
  "zeroPage = \<lparr>id_page = 0, number = 0, tileX = 0, tileY = 0,
     mediaBox = mkRect (Fin 0) (Fin 0) (Fin 0) (Fin 0),
     cropBox = mkRect (Fin 0) (Fin 0) (Fin 0) (Fin 0),
     bleedBox = mkRect (Fin 0) (Fin 0) (Fin 0) (Fin 0),
     trimBox = mkRect (Fin 0) (Fin 0) (Fin 0) (Fin 0),
     contentIds = [], parentId = 0, raw = []\<rparr>"

subsection \<open>The patterns of the page objects\<close>

definition boxNumRe :: re where
  "boxNumRe = Seq (Opt (Lit ''-'')) (Plus (In ''0123456789.''))"

definition boxReTpl :: "string \<Rightarrow> re" where
  "boxReTpl boxName =
     seqs [Bol, Plus spaceCls, Lit (''/'' @ boxName), Star spaceCls, Lit ''['', Star spaceCls,
           Grp 1 boxNumRe, Plus spaceCls, Grp 2 boxNumRe, Plus spaceCls,
           Grp 3 boxNumRe, Plus spaceCls, Grp 4 boxNumRe, Star spaceCls, Lit '']'']"

definition bleedBoxRe :: re where "bleedBoxRe = boxReTpl ''BleedBox''"
definition cropBoxRe :: re where "cropBoxRe = boxReTpl ''CropBox''"
definition mediaBoxRe :: re where "mediaBoxRe = boxReTpl ''MediaBox''"
definition trimBoxRe :: re where "trimBoxRe = boxReTpl ''TrimBox''"

definition contentsRe :: re where
  "contentsRe =
     seqs [Bol, Plus spaceCls, Lit ''/Contents'', Plus spaceCls,
           Alt (Grp 1 (Plus digitCls)) (Seq (Lit ''['') (Grp 2 (Star (NotIn '']''))))]"

text \<open>The pattern of line 201 for the references inside a content array.\<close>

definition contentRefRe :: re where
  "contentRefRe =
     seqs [Bol, Plus spaceCls, Grp 1 (Plus digitCls), Plus spaceCls, Plus digitCls,
           Plus spaceCls, Lit ''R'']"

definition pageObjRmRe :: re where
  "pageObjRmRe =
     seqs [Bol, Plus spaceCls, Lit ''/'',
           Grp 1 (alts [Seq (Grp 2 (alts [Lit ''Bleed'', Lit ''Crop'', Lit ''Media'',
                                        Lit ''Trim'', Lit ''Art''])) (Lit ''Box''),
                        Lit ''Contents'', Lit ''Parent'']),
           Plus spaceCls,
           Grp 3 (Alt (seqs [Lit ''['', Plus (NotIn '']''), Lit '']''])
                      (seqs [Plus digitCls, Plus spaceCls, Plus digitCls, Plus spaceCls,
                             Lit ''R''])),
           Lit [newline]]"

definition pageRe :: re where
  "pageRe =
     seqs [Bol, Lit ''%% Page '', Grp 1 (Plus digitCls), Lit [newline],
           Lit ''%%'', Star (NotIn [newline]), Lit [newline],
           Plus digitCls, Plus spaceCls, Plus digitCls, Plus spaceCls, Lit ''obj'',
           Lit [newline], Lit ''<<'', Lit [newline],
           Grp 2 (LazyStar anyCls), Lit [newline], Bol, Lit ''>>'', Lit [newline],
           Bol, Lit ''endobj'']"

definition pagesRe :: re where
  "pagesRe =
     seqs [Bol, Plus spaceCls, Lit ''/Pages'', Plus spaceCls, Grp 1 (Plus digitCls),
           Plus spaceCls, Plus digitCls, Plus spaceCls, Lit ''R'']"

definition xrefRe :: re where
  "xrefRe =
     seqs [Bol, Lit ''xref'', Plus spaceCls, Plus digitCls, Plus spaceCls,
           Grp 1 (Plus digitCls)]"

subsection \<open>Reading a page object: \<^verbatim>\<open>extractAttrs\<close> and \<^verbatim>\<open>getAllPages\<close>\<close>

text \<open>
  A call ends in one of three ways: it returns a value, it returns an error (with its
  message), or it panics. \<open>Unspecified\<close> is the result of a call that has converted to
  \<^verbatim>\<open>int\<close> a number without a value in the range of \<^verbatim>\<open>int\<close>.
\<close>

datatype 'a outcome = Done 'a | Failed string | Panic | Unspecified

text \<open>
  The helpers \<^verbatim>\<open>atoi\<close> and \<^verbatim>\<open>atof\<close> of \<^verbatim>\<open>extractAttrs\<close> panic when the
  conversion reports an error; \<open>None\<close> is the panic.
\<close>

definition atoi :: "string \<Rightarrow> int option" where
  "atoi s = (case Atoi s of (i, None) \<Rightarrow> Some i | (i, Some e) \<Rightarrow> None)"

definition atof :: "string \<Rightarrow> float32 option" where
  "atof s = (case ParseFloat32 s of (f, Some e) \<Rightarrow> None | (f, None) \<Rightarrow> Some f)"

fun atoiAll :: "string list \<Rightarrow> int list option" where
  "atoiAll [] = Some []"
| "atoiAll (s # ss) =
     (case atoi s of None \<Rightarrow> None
      | Some i \<Rightarrow> (case atoiAll ss of None \<Rightarrow> None | Some is \<Rightarrow> Some (i # is)))"

text \<open>\<^verbatim>\<open>rect{atof(m[1]), atof(m[2]), atof(m[3]), atof(m[4])}\<close>\<close>

definition rectOf :: "string list \<Rightarrow> rect option" where
  "rectOf m =
     (case atof (m ! 1) of None \<Rightarrow> None | Some a \<Rightarrow>
      (case atof (m ! 2) of None \<Rightarrow> None | Some b \<Rightarrow>
       (case atof (m ! 3) of None \<Rightarrow> None | Some c \<Rightarrow>
        (case atof (m ! 4) of None \<Rightarrow> None | Some d \<Rightarrow> Some (mkRect a b c d)))))"

text \<open>A box that is read if its pattern matches, and is the given default otherwise.\<close>

definition boxOr :: "re \<Rightarrow> string \<Rightarrow> rect \<Rightarrow> rect option" where
  "boxOr r body dflt =
     (case FindStringSubmatch r body of None \<Rightarrow> Some dflt | Some m \<Rightarrow> rectOf m)"

definition readContentIds :: "string list \<Rightarrow> int list option" where
  "readContentIds m =
     (if m ! 1 \<noteq> [] then (case atoi (m ! 1) of None \<Rightarrow> None | Some i \<Rightarrow> Some [i])
      else atoiAll (map (\<lambda>r. r ! 1) (FindAllStringSubmatch contentRefRe (m ! 2))))"

definition extractAttrs :: "page \<Rightarrow> page outcome" where
  "extractAttrs p =
     (case FindStringSubmatch contentsRe (raw p) of
        None \<Rightarrow> Failed (''cannot find Contents for page:'' @ [newline] @ raw p)
      | Some m \<Rightarrow>
     (case readContentIds m of None \<Rightarrow> Panic | Some cids \<Rightarrow>
     (case FindStringSubmatch mediaBoxRe (raw p) of
        None \<Rightarrow> Failed (''cannot find MediaBox for page:'' @ [newline] @ raw p)
      | Some m \<Rightarrow>
     (case rectOf m of None \<Rightarrow> Panic | Some mb \<Rightarrow>
      if \<not> isValid mb then Failed (''invalid MediaBox for page:'' @ [newline] @ raw p) else
     (case boxOr cropBoxRe (raw p) mb of None \<Rightarrow> Panic | Some cb \<Rightarrow>
      if \<not> isValid cb then Failed (''invalid CropBox for page:'' @ [newline] @ raw p) else
     (case boxOr bleedBoxRe (raw p) cb of None \<Rightarrow> Panic | Some bb \<Rightarrow>
      if \<not> isValid bb then Failed (''invalid BleedBox for page:'' @ [newline] @ raw p) else
     (case boxOr trimBoxRe (raw p) cb of None \<Rightarrow> Panic | Some tb \<Rightarrow>
      if \<not> isValid tb then Failed (''invalid TrimBox for page:'' @ [newline] @ raw p) else
      Done (p\<lparr>contentIds := cids, mediaBox := mb, cropBox := cb, bleedBox := bb,
               trimBox := tb, raw := ReplaceAllString pageObjRmRe (raw p) (\<lambda>m. [])\<rparr>))))))))"

text \<open>
  \<^verbatim>\<open>getAllPages\<close> returns the pages; the model returns with them the messages that
  \<^verbatim>\<open>log.Print\<close> has written, in order.
\<close>

fun pagesLoop :: "string list list \<Rightarrow> page list \<Rightarrow> string list \<Rightarrow> (page list \<times> string list) outcome" where
  "pagesLoop [] pages logged = Done (pages, logged)"
| "pagesLoop (pm # pms) pages logged =
     (let pNum = fst (Atoi (pm ! 1));
          p = zeroPage\<lparr>number := pNum, raw := pm ! 2\<rparr>
      in case extractAttrs p of
           Failed e \<Rightarrow> pagesLoop pms pages (logged @ [e])
         | Panic \<Rightarrow> Panic
         | Unspecified \<Rightarrow> Unspecified
         | Done p' \<Rightarrow> pagesLoop pms (pages @ [p']) logged)"

definition getAllPages :: "string \<Rightarrow> (page list \<times> string list) outcome" where
  "getAllPages d = pagesLoop (FindAllStringSubmatch pageRe d) [] []"

subsection \<open>Cutting a page: \<^verbatim>\<open>cutPageToTiles\<close>\<close>

text \<open>
  The parameters \<^verbatim>\<open>bleedMargin\<close> and \<^verbatim>\<open>trimMargin\<close> of the function hide the
  constants of the same names; they are \<open>bleedM\<close> and \<open>trimM\<close> here. \<open>newTile\<close> is the
  struct literal of lines 275 to 291, for the lower left corner \<open>(x0, y0)\<close> of the trim
  box; a sum of three or four terms is rounded after every operation, from the left.
\<close>

definition newTile :: "page \<Rightarrow> float32 \<Rightarrow> float32 \<Rightarrow> float32 \<Rightarrow> float32 \<Rightarrow> float32 \<Rightarrow> float32
    \<Rightarrow> int \<Rightarrow> int \<Rightarrow> page" where
  "newTile p tileW tileH bleedM trimM x0 y0 tgx tgy =
     (let tile = \<lparr>id_page = 0, number = number p, tileX = tgx, tileY = tgy,
            mediaBox = mkRect (fsub (fsub x0 trimM) bleedM) (fsub (fsub y0 trimM) bleedM)
                              (fadd (fadd (fadd x0 tileW) trimM) bleedM)
                              (fadd (fadd (fadd y0 tileH) trimM) bleedM),
            cropBox = mkRect (Fin 0) (Fin 0) (Fin 0) (Fin 0),
            bleedBox = mkRect (fsub x0 trimM) (fsub y0 trimM)
                              (fadd (fadd x0 tileW) trimM) (fadd (fadd y0 tileH) trimM),
            trimBox = mkRect x0 y0 (fadd x0 tileW) (fadd y0 tileH),
            contentIds = [] @ contentIds p, parentId = 0, raw = raw p\<rparr>
      in tile\<lparr>cropBox := mediaBox tile\<rparr>)"

text \<open>
  The inner loop over \<open>x\<close> and the outer loop over \<open>y\<close>, with their counters. A counter
  stays below a tile count, so that no sum of theirs wraps around.
\<close>

function xLoop :: "page \<Rightarrow> float32 \<Rightarrow> float32 \<Rightarrow> float32 \<Rightarrow> float32 \<Rightarrow> int \<Rightarrow> float32 \<Rightarrow> int \<Rightarrow> int \<Rightarrow> int
    \<Rightarrow> page list \<Rightarrow> page list" where
  "xLoop p tileW tileH bleedM trimM hTiles y0 tgy x tgx tilePages =
     (if x < hTiles
      then xLoop p tileW tileH bleedM trimM hTiles y0 tgy (x + 1) (tgx + 1)
             (tilePages @ [newTile p tileW tileH bleedM trimM
                             (fadd (llx (trimBox p)) (fmul (ofInt32 x) tileW)) y0 tgx tgy])
      else tilePages)"
  by pat_completeness auto
termination
  by (relation "measure (\<lambda>(p, tileW, tileH, bleedM, trimM, hTiles, y0, tgy, x, tgx, tilePages). nat (hTiles - x))") auto

function yLoop :: "page \<Rightarrow> float32 \<Rightarrow> float32 \<Rightarrow> float32 \<Rightarrow> float32 \<Rightarrow> int \<Rightarrow> int \<Rightarrow> int \<Rightarrow> int
    \<Rightarrow> page list \<Rightarrow> page list" where
  "yLoop p tileW tileH bleedM trimM hTiles vTiles y tgy tilePages =
     (if y < vTiles
      then yLoop p tileW tileH bleedM trimM hTiles vTiles (y + 1) (tgy + 1)
             (xLoop p tileW tileH bleedM trimM hTiles
                (fadd (lly (trimBox p)) (fmul (ofInt32 y) tileH)) tgy 0 0 tilePages)
      else tilePages)"
  by pat_completeness auto
termination
  by (relation "measure (\<lambda>(p, tileW, tileH, bleedM, trimM, hTiles, vTiles, y, tgy, tilePages). nat (vTiles - y))") auto

declare xLoop.simps [simp del] yLoop.simps [simp del]

text \<open>
  The tile counts are \<^verbatim>\<open>int(math.Ceil(float64(pageWidth / tileW)))\<close>, with the quotient
  rounded to \<^verbatim>\<open>float32\<close> before the ceiling is taken. The result is \<open>None\<close> when a
  count is left to the platform.
\<close>

definition cutPageToTiles :: "page \<Rightarrow> float32 \<Rightarrow> float32 \<Rightarrow> float32 \<Rightarrow> float32 \<Rightarrow> page list option" where
  "cutPageToTiles p tileW tileH bleedM trimM =
     (let pageWidth = fsub (urx (trimBox p)) (llx (trimBox p));
          pageHeight = fsub (ury (trimBox p)) (lly (trimBox p))
      in case ceilInt (fdiv pageWidth tileW) of None \<Rightarrow> None | Some hTiles \<Rightarrow>
        (case ceilInt (fdiv pageHeight tileH) of None \<Rightarrow> None | Some vTiles \<Rightarrow>
           (let tileW' = fdiv pageWidth (ofInt32 hTiles);
                tileH' = fdiv pageHeight (ofInt32 vTiles)
            in Some (yLoop p tileW' tileH' bleedM trimM hTiles vTiles 0 0 []))))"

subsection \<open>Labels and the overlay: \<^verbatim>\<open>numToAlpha\<close>, \<^verbatim>\<open>createOverlayForPage\<close>\<close>

text \<open>
  The loop body of \<^verbatim>\<open>numToAlpha\<close> on one byte. The arithmetic is on \<^verbatim>\<open>byte\<close>
  values, so it is taken modulo 256.
\<close>

definition alphaByte :: "char \<Rightarrow> char" where
  "alphaByte c =
     (if (of_char c :: int) < of_char CHR ''a''
      then char_of ((of_char CHR ''A'' + ((of_char c - of_char CHR ''0'') mod 256)) mod 256 :: int)
      else char_of ((of_char CHR ''A'' + 10 + ((of_char c - of_char CHR ''a'') mod 256)) mod 256 :: int))"

definition numToAlpha :: "int \<Rightarrow> string" where
  "numToAlpha n = map alphaByte (FormatInt n 26)"

text \<open>
  The two strings of the tile reference that lines 437 and 438 hand to
  \<^verbatim>\<open>strToVecChars\<close>: the row and the column of the tile.
\<close>

definition tileRowLabel :: "page \<Rightarrow> string" where
  "tileRowLabel p = numToAlpha (tileY p)"

definition tileColumnLabel :: "page \<Rightarrow> string" where
  "tileColumnLabel p = Itoa (tileX p + 1)"

text \<open>
  The drawing commands of the overlay (lines 373 to 464) need \<^verbatim>\<open>strToVecChars\<close>,
  \<^verbatim>\<open>vecCharHeight\<close> and the logo, which are not among the sources; the stream is the
  parameter \<open>overlayStream\<close>, a function of the tile. The function returns the text of
  the object and the tile with the new content reference.
\<close>

definition createOverlayForPage :: "(page \<Rightarrow> string) \<Rightarrow> int \<Rightarrow> page \<Rightarrow> string \<times> page" where
  "createOverlayForPage overlayStream overlayId p =
     (let stream = overlayStream p in
      (Itoa overlayId @ '' 0 obj'' @ [newline] @ ''<< /Length '' @ Itoa (int (length stream))
         @ '' >> stream'' @ [newline] @ stream @ ''endstream'' @ [newline] @ ''endobj'' @ [newline],
       p\<lparr>contentIds := contentIds p @ [overlayId]\<rparr>))"

subsection \<open>Writing pages: \<^verbatim>\<open>marshal\<close>, \<^verbatim>\<open>appendPagesToDoc\<close>, \<^verbatim>\<open>replaceAllDocPagesWith\<close>\<close>

text \<open>The format \<^verbatim>\<open>%f\<close> of a coordinate is the parameter \<open>ff\<close>.\<close>

definition marshalBox :: "(float32 \<Rightarrow> string) \<Rightarrow> string \<Rightarrow> rect \<Rightarrow> string" where
  "marshalBox ff boxName r =
     ''  /'' @ boxName @ '' [ '' @ ff (llx r) @ '' '' @ ff (lly r) @ '' '' @ ff (urx r) @ '' ''
       @ ff (ury r) @ '' ]'' @ [newline]"

definition marshal :: "(float32 \<Rightarrow> string) \<Rightarrow> page \<Rightarrow> string" where
  "marshal ff p =
     [newline] @ Itoa (id_page p) @ '' 0 obj'' @ [newline] @ ''<<'' @ [newline]
     @ marshalBox ff ''MediaBox'' (mediaBox p)
     @ marshalBox ff ''CropBox'' (cropBox p)
     @ marshalBox ff ''BleedBox'' (bleedBox p)
     @ marshalBox ff ''TrimBox'' (trimBox p)
     @ ''  /Contents [ ''
     @ concat (map (\<lambda>cid. '' '' @ Itoa cid @ '' 0 R '') (contentIds p))
     @ '' ]'' @ [newline]
     @ ''  /Parent '' @ Itoa (parentId p) @ '' 0 R'' @ [newline]
     @ raw p
     @ [newline] @ ''>>'' @ [newline] @ ''endobj'' @ [newline]"

definition xrefMarker :: string where
  "xrefMarker = [newline] @ ''xref'' @ [newline]"

text \<open>The loop of \<^verbatim>\<open>appendPagesToDoc\<close>: the index \<open>i\<close> (\<^verbatim>\<open>pi\<close> in the source), the builder \<open>b\<close>,
  and the pages with their ids.\<close>

fun appendLoop :: "(float32 \<Rightarrow> string) \<Rightarrow> int \<Rightarrow> int \<Rightarrow> string \<Rightarrow> page list \<Rightarrow> string \<times> page list" where
  "appendLoop ff startId i b [] = (b, [])"
| "appendLoop ff startId i b (p # ps) =
     (let p' = p\<lparr>id_page := wrap64 (i + startId)\<rparr>;
          (b', ps') = appendLoop ff startId (i + 1) (b @ marshal ff p') ps
      in (b', p' # ps'))"

definition appendPagesToDoc :: "(float32 \<Rightarrow> string) \<Rightarrow> string \<Rightarrow> int \<Rightarrow> page list \<Rightarrow> string \<times> page list" where
  "appendPagesToDoc ff d startId pages =
     (let (b, pages') = appendLoop ff startId 0 [] pages
      in (Replace1 d xrefMarker ([newline] @ b @ [newline] @ xrefMarker), pages'))"

definition countRe :: "int \<Rightarrow> re" where
  "countRe pageTreeId =
     seqs [Bol, Grp 1 (seqs [Lit (Itoa pageTreeId @ '' 0 obj'' @ [newline]), LazyStar anyCls,
                             Bol, Plus spaceCls, Lit ''/Count'', Plus spaceCls]),
           Plus digitCls]"

definition kidsRe :: "int \<Rightarrow> re" where
  "kidsRe pageTreeId =
     seqs [Bol, Grp 1 (seqs [Lit (Itoa pageTreeId @ '' 0 obj'' @ [newline]), LazyStar anyCls,
                             Bol, Plus spaceCls, Lit ''/Kids'', Plus spaceCls, Lit ''['']),
           Star (NotIn '']'')]"

definition replaceAllDocPagesWith :: "string \<Rightarrow> page list \<Rightarrow> int \<Rightarrow> string" where
  "replaceAllDocPagesWith d pages pageTreeId =
     (let b = concat (map (\<lambda>p. Itoa (id_page p) @ '' 0 R'' @ [newline]) pages);
          d1 = ReplaceAllString (countRe pageTreeId) d (\<lambda>m. m ! 1 @ Itoa (int (length pages)));
          d2 = ReplaceAllString (kidsRe pageTreeId) d1 (\<lambda>m. m ! 1 @ '' '' @ b @ '' '')
      in d2)"

subsection \<open>The tile size flag: \<^verbatim>\<open>TileSizeFlag.Set\<close>\<close>

record TileSizeFlag =
  name :: string
  width :: float32
  height :: float32
  isDim :: bool

text \<open>The map of line 58 has \<^verbatim>\<open>float32\<close> values; a key that it lacks gives zero.\<close>

definition unitsToMillimeter :: "string \<Rightarrow> float32" where
  "unitsToMillimeter u =
     (if u = ''mm'' then round32 1 else if u = ''cm'' then round32 mmInCm
      else if u = ''in'' then round32 mmInInch
      else if u = ''pt'' then round32 (mmInInch / ptsInInch) else Fin 0)"

definition dimNumRe :: re where
  "dimNumRe = Seq (Plus digitCls) (Opt (Seq (Lit ''.'') (Plus digitCls)))"

definition dimUnitRe :: re where
  "dimUnitRe = alts [Lit ''mm'', Lit ''cm'', Lit ''in'', Lit ''pt'']"

definition dimRe :: re where
  "dimRe =
     seqs [Bot, Star spaceCls, Grp 1 dimNumRe, Star spaceCls, Grp 2 dimUnitRe, Star spaceCls,
           Lit ''x'', Star spaceCls, Grp 3 dimNumRe, Star spaceCls, Grp 4 dimUnitRe,
           Star spaceCls, Eot]"

text \<open>
  The check of lines 85 to 88, on the flag as it has been filled in; the constant is
  converted to \<^verbatim>\<open>float32\<close> for the comparison.
\<close>

definition checkMin :: "TileSizeFlag \<Rightarrow> TileSizeFlag \<times> string option" where
  "checkMin v =
     (if flt (width v) (round32 minPageDimension) \<or> flt (height v) (round32 minPageDimension)
      then (v, Some ''min. tile dimension is 51.152778mm x 51.152778mm'')
      else (v, None))"

text \<open>
  \<^verbatim>\<open>papersizes.FromName\<close> belongs to another repository: the table of the known
  paper sizes is the parameter \<open>fromName\<close>, which gives the name, the width and the
  height in millimetres. The method changes the flag and returns an error or
  \<^verbatim>\<open>nil\<close>; the model returns the flag and the error.
\<close>

definition Set_flag :: "(string \<Rightarrow> (string \<times> real \<times> real) option) \<Rightarrow> TileSizeFlag \<Rightarrow> string
    \<Rightarrow> TileSizeFlag \<times> string option" where
  "Set_flag fromName v s =
     (case fromName s of
        Some (sizeName, sizeWidth, sizeHeight) \<Rightarrow>
          checkMin (v\<lparr>name := sizeName, width := round32 sizeWidth, height := round32 sizeHeight,
                      isDim := False\<rparr>)
      | None \<Rightarrow>
          (case FindStringSubmatch dimRe s of
             None \<Rightarrow> (v, Some ''invalid tile size'')
           | Some parts \<Rightarrow>
               checkMin (v\<lparr>name := parts ! 1 @ parts ! 2 @ ''x'' @ parts ! 3 @ parts ! 4,
                  width := fmul (fst (ParseFloat32 (parts ! 1))) (unitsToMillimeter (parts ! 2)),
                  height := fmul (fst (ParseFloat32 (parts ! 3))) (unitsToMillimeter (parts ! 4)),
                  isDim := True\<rparr>)))"

subsection \<open>The run: \<^verbatim>\<open>process\<close>\<close>

definition numErrorText :: "string \<Rightarrow> numError \<Rightarrow> string" where
  "numErrorText s e =
     ''strconv.Atoi: parsing '' @ [CHR 0x22] @ s @ [CHR 0x22]
       @ (case e of ErrSyntax \<Rightarrow> '': invalid syntax'' | ErrRange \<Rightarrow> '': value out of range'')"

definition getNextFreeObjectId :: "string \<Rightarrow> int outcome" where
  "getNextFreeObjectId d =
     (case FindStringSubmatch xrefRe d of
        None \<Rightarrow> Failed ''cannot find the next free object id''
      | Some m \<Rightarrow> (case Atoi (m ! 1) of (i, None) \<Rightarrow> Done i
                                      | (i, Some e) \<Rightarrow> Failed (numErrorText (m ! 1) e)))"

text \<open>The two streams of line 513, and the loop of lines 517 to 520.\<close>

definition wrapObjs :: "int \<Rightarrow> string" where
  "wrapObjs nextId =
     Itoa nextId @ '' 0 obj'' @ [newline] @ ''<< /Length 1 >> stream'' @ [newline]
       @ ''qendstream'' @ [newline] @ ''endobj'' @ [newline]
     @ Itoa (wrap64 (nextId + 1)) @ '' 0 obj'' @ [newline] @ ''<< /Length 1 >> stream'' @ [newline]
       @ ''Qendstream'' @ [newline] @ ''endobj'' @ [newline]"

definition wrapContents :: "int \<Rightarrow> page list \<Rightarrow> page list" where
  "wrapContents nextId tiles =
     map (\<lambda>t. t\<lparr>contentIds := ([nextId] @ contentIds t) @ [wrap64 (nextId + 1)]\<rparr>) tiles"

text \<open>The loop of lines 527 to 530: the builder, the tiles and the counter.\<close>

fun overlayLoop :: "(page \<Rightarrow> string) \<Rightarrow> int \<Rightarrow> string \<Rightarrow> page list \<Rightarrow> string \<times> page list \<times> int" where
  "overlayLoop overlayStream nextId b [] = (b, [], nextId)"
| "overlayLoop overlayStream nextId b (t # ts) =
     (let (obj, t') = createOverlayForPage overlayStream nextId t;
          (b', ts', nextId') = overlayLoop overlayStream (wrap64 (nextId + 1)) (b @ obj) ts
      in (b', t' # ts', nextId'))"

text \<open>
  Lines 511 to 534: the wrap streams, the overlays and the pages are written in front
  of the marker of the cross-reference table, in this order.
\<close>

definition spliceObjects :: "(float32 \<Rightarrow> string) \<Rightarrow> (page \<Rightarrow> string) \<Rightarrow> string \<Rightarrow> int \<Rightarrow> page list
    \<Rightarrow> string \<times> page list" where
  "spliceObjects ff overlayStream d nextId tiles =
     (let d1 = Replace1 d xrefMarker ([newline] @ wrapObjs nextId @ xrefMarker);
          tiles1 = wrapContents nextId tiles;
          nextId1 = wrap64 (nextId + 2);
          (b, tiles2, nextId2) = overlayLoop overlayStream nextId1 [] tiles1;
          d2 = Replace1 d1 xrefMarker ([newline] @ b @ xrefMarker)
      in appendPagesToDoc ff d2 nextId2 tiles2)"

text \<open>
  \<open>process\<close> is the function from the text that \<^verbatim>\<open>convertToQDF\<close> has read to the
  text that is written to the temporary file for \<^verbatim>\<open>convertToOptimizedPDF\<close>; the two
  calls of qpdf and the files are outside of the model, and an error that \<open>process\<close>
  returns before the text is complete is returned before anything is written.
  \<^verbatim>\<open>sort.Slice\<close> is the stable sort by page number (Go's sort is an insertion sort
  below twelve elements, and page numbers of a QDF file are distinct). \<open>tilesLoop\<close> is
  the loop of lines 501 to 507.
\<close>

record rewritten =
  outData :: string
  outTiles :: "page list"
  outLog :: "string list"

definition tileTarget :: "float32 \<Rightarrow> float32" where
  "tileTarget mm =
     fsub (fdiv (fmul mm (round32 ptsInInch)) (round32 mmInInch))
          (round32 ((bleedMargin + trimMargin) * 2))"

fun tilesLoop :: "int \<Rightarrow> float32 \<Rightarrow> float32 \<Rightarrow> page list \<Rightarrow> page list \<Rightarrow> page list option" where
  "tilesLoop pageTreeId tileW tileH tiles [] = Some tiles"
| "tilesLoop pageTreeId tileW tileH tiles (p # ps) =
     (case cutPageToTiles p tileW tileH (round32 bleedMargin) (round32 trimMargin) of
        None \<Rightarrow> None
      | Some ts \<Rightarrow>
          tilesLoop pageTreeId tileW tileH (tiles @ map (\<lambda>t. t\<lparr>parentId := pageTreeId\<rparr>) ts) ps)"

definition process :: "(float32 \<Rightarrow> string) \<Rightarrow> (page \<Rightarrow> string) \<Rightarrow> TileSizeFlag \<Rightarrow> string \<Rightarrow> rewritten outcome" where
  "process ff overlayStream tileSize d =
     (case FindStringSubmatch pagesRe d of
        None \<Rightarrow> Failed ''cannot find root page tree''
      | Some m \<Rightarrow>
     (let pageTreeId = fst (Atoi (m ! 1)) in
      case getNextFreeObjectId d of
        Failed e \<Rightarrow> Failed e
      | Panic \<Rightarrow> Panic
      | Unspecified \<Rightarrow> Unspecified
      | Done nextId \<Rightarrow>
     (let tileW = tileTarget (width tileSize);
          tileH = tileTarget (height tileSize) in
      case getAllPages d of
        Failed e \<Rightarrow> Failed e
      | Panic \<Rightarrow> Panic
      | Unspecified \<Rightarrow> Unspecified
      | Done (pages, logged) \<Rightarrow>
     (case tilesLoop pageTreeId tileW tileH [] (sort_key number pages) of
        None \<Rightarrow> Unspecified
      | Some tiles \<Rightarrow>
     (let (d3, tiles3) = spliceObjects ff overlayStream d nextId tiles;
          d4 = replaceAllDocPagesWith d3 tiles3 pageTreeId
      in Done \<lparr>outData = d4, outTiles = tiles3, outLog = logged\<rparr>)))))"

subsection \<open>Notions of the specification\<close>

text \<open>
  A real number that \<^verbatim>\<open>float32\<close> has as a value, a \<^verbatim>\<open>float32\<close> whose number is one, a
  finite \<^verbatim>\<open>float32\<close>, and its number.
\<close>

definition isF32 :: "real \<Rightarrow> bool" where
  "isF32 y \<longleftrightarrow> \<bar>y\<bar> < 2 ^ 128 \<and> of_int \<lfloor>y / quantum y\<rfloor> = y / quantum y"

fun wf32 :: "float32 \<Rightarrow> bool" where
  "wf32 (Fin a) = isF32 a"
| "wf32 PosInf = True"
| "wf32 NegInf = True"
| "wf32 NaN = True"

fun isFin :: "float32 \<Rightarrow> bool" where
  "isFin (Fin a) = True"
| "isFin PosInf = False"
| "isFin NegInf = False"
| "isFin NaN = False"

fun valof :: "float32 \<Rightarrow> real" where
  "valof (Fin a) = a"
| "valof PosInf = 0"
| "valof NegInf = 0"
| "valof NaN = 0"

text \<open>A box with finite coordinates, and a box whose coordinates are finite values of \<^verbatim>\<open>float32\<close>.\<close>

definition box :: "real \<Rightarrow> real \<Rightarrow> real \<Rightarrow> real \<Rightarrow> rect" where
  "box a b c d = mkRect (Fin a) (Fin b) (Fin c) (Fin d)"

definition finiteRect :: "rect \<Rightarrow> bool" where
  "finiteRect r \<longleftrightarrow>
     isFin (llx r) \<and> wf32 (llx r) \<and> isFin (lly r) \<and> wf32 (lly r)
     \<and> isFin (urx r) \<and> wf32 (urx r) \<and> isFin (ury r) \<and> wf32 (ury r)"

text \<open>
  The width and the height of the trim box of a page as the program computes them, the
  tile counts, and the tile size after the redistribution.
\<close>

definition trimWidth :: "page \<Rightarrow> float32" where
  "trimWidth p = fsub (urx (trimBox p)) (llx (trimBox p))"

definition trimHeight :: "page \<Rightarrow> float32" where
  "trimHeight p = fsub (ury (trimBox p)) (lly (trimBox p))"

definition countH :: "page \<Rightarrow> float32 \<Rightarrow> int option" where
  "countH p tileW = ceilInt (fdiv (trimWidth p) tileW)"

definition countV :: "page \<Rightarrow> float32 \<Rightarrow> int option" where
  "countV p tileH = ceilInt (fdiv (trimHeight p) tileH)"

definition sizeW :: "page \<Rightarrow> int \<Rightarrow> float32" where
  "sizeW p H = fdiv (trimWidth p) (ofInt32 H)"

definition sizeH :: "page \<Rightarrow> int \<Rightarrow> float32" where
  "sizeH p V = fdiv (trimHeight p) (ofInt32 V)"

text \<open>
  A box grown by a margin on its four sides in the arithmetic of \<^verbatim>\<open>float32\<close>, a box
  that lies within another, and the points of a box, with and without its border.
\<close>

definition expand :: "rect \<Rightarrow> float32 \<Rightarrow> rect" where
  "expand r m = mkRect (fsub (llx r) m) (fsub (lly r) m) (fadd (urx r) m) (fadd (ury r) m)"

definition contains :: "rect \<Rightarrow> rect \<Rightarrow> bool" where
  "contains outer inner \<longleftrightarrow>
     fle (llx outer) (llx inner) \<and> fle (lly outer) (lly inner)
     \<and> fle (urx inner) (urx outer) \<and> fle (ury inner) (ury outer)"

definition points :: "rect \<Rightarrow> (real \<times> real) set" where
  "points r = {(a, b). fle (llx r) (Fin a) \<and> fle (Fin a) (urx r) \<and> fle (lly r) (Fin b) \<and> fle (Fin b) (ury r)}"

definition innerPoints :: "rect \<Rightarrow> (real \<times> real) set" where
  "innerPoints r = {(a, b). flt (llx r) (Fin a) \<and> flt (Fin a) (urx r) \<and> flt (lly r) (Fin b) \<and> flt (Fin b) (ury r)}"

text \<open>
  The tile of column \<open>i\<close> and row \<open>j\<close>, and a list made row after row; both are used
  to describe the result of the two loops.
\<close>

definition tileOf :: "page \<Rightarrow> float32 \<Rightarrow> float32 \<Rightarrow> float32 \<Rightarrow> float32 \<Rightarrow> nat \<Rightarrow> nat \<Rightarrow> page" where
  "tileOf p tileW tileH bleedM trimM i j =
     newTile p tileW tileH bleedM trimM
       (fadd (llx (trimBox p)) (fmul (ofInt32 (int i)) tileW))
       (fadd (lly (trimBox p)) (fmul (ofInt32 (int j)) tileH)) (int i) (int j)"

definition grid :: "nat \<Rightarrow> nat \<Rightarrow> (nat \<Rightarrow> nat \<Rightarrow> 'a) \<Rightarrow> 'a list" where
  "grid H V f = concat (map (\<lambda>j. map (\<lambda>i. f i j) [0..<H]) [0..<V])"

text \<open>
  The line number \<open>k\<close> of the exact grid that cuts the interval from \<open>a\<close> to \<open>c\<close> into
  \<open>n\<close> equal parts, and the scale of the interval, to which a rounding error is
  compared.
\<close>

definition gridLine :: "real \<Rightarrow> real \<Rightarrow> int \<Rightarrow> int \<Rightarrow> real" where
  "gridLine a c n k = a + of_int k * (c - a) / of_int n"

definition scale :: "real \<Rightarrow> real \<Rightarrow> real" where
  "scale a c = max 1 (max \<bar>a\<bar> \<bar>c\<bar>)"

text \<open>The margins that \<^verbatim>\<open>process\<close> hands to \<^verbatim>\<open>cutPageToTiles\<close>, and the tile targets of A4.\<close>

definition bleedM32 :: float32 where
  "bleedM32 = round32 bleedMargin"

definition trimM32 :: float32 where
  "trimM32 = round32 trimMargin"

definition a4W :: float32 where
  "a4W = tileTarget (Fin 210)"

definition a4H :: float32 where
  "a4H = tileTarget (Fin 297)"

text \<open>
  A page of 600 by 900 points; a page whose width, 2256.378 points read as a
  \<^verbatim>\<open>float32\<close>, is a little more than five times the tile target of A4; a page far
  from the origin; and a page of 1000 by 1000 points at (0.1, 0.1), read as
  \<^verbatim>\<open>float32\<close>.
\<close>

definition examplePage :: page where
  "examplePage = zeroPage\<lparr>number := 1, mediaBox := box 0 0 600 900, cropBox := box 0 0 600 900,
     bleedBox := box 0 0 600 900, trimBox := box 0 0 600 900, contentIds := [4]\<rparr>"

definition widePage :: page where
  "widePage = zeroPage\<lparr>number := 1, mediaBox := box 0 0 (2310531 / 1024) 9,
     cropBox := box 0 0 (2310531 / 1024) 9, bleedBox := box 0 0 (2310531 / 1024) 9,
     trimBox := box 0 0 (2310531 / 1024) 9, contentIds := [4]\<rparr>"

definition farPage :: page where
  "farPage = zeroPage\<lparr>number := 1, mediaBox := box 1000000000 0 1000000640 900,
     cropBox := box 1000000000 0 1000000640 900, bleedBox := box 1000000000 0 1000000640 900,
     trimBox := box 1000000000 0 1000000640 900, contentIds := [4]\<rparr>"

definition shiftedPage :: page where
  "shiftedPage = zeroPage\<lparr>number := 1,
     mediaBox := box (13421773 / 134217728) (13421773 / 134217728) (8192819 / 8192) (8192819 / 8192),
     cropBox := box (13421773 / 134217728) (13421773 / 134217728) (8192819 / 8192) (8192819 / 8192),
     bleedBox := box (13421773 / 134217728) (13421773 / 134217728) (8192819 / 8192) (8192819 / 8192),
     trimBox := box (13421773 / 134217728) (13421773 / 134217728) (8192819 / 8192) (8192819 / 8192),
     contentIds := [4]\<rparr>"


definition flatPage :: page where
  "flatPage = zeroPage\<lparr>number := 1, mediaBox := box 0 0 0 100, cropBox := box 0 0 0 100,
     bleedBox := box 0 0 0 100, trimBox := box 0 0 0 100, contentIds := [4],
     raw := ''  /Type /Page''\<rparr>"

text \<open>
  The letters as digits of base 26, \<open>A\<close> for zero, and the number that a string of
  letters denotes in this base.
\<close>

definition alphabet :: string where
  "alphabet = ''ABCDEFGHIJKLMNOPQRSTUVWXYZ''"

definition alphaValue :: "string \<Rightarrow> nat" where
  "alphaValue s = foldl (\<lambda>a c. 26 * a + (of_char c - of_char CHR ''A'')) 0 s"

text \<open>A tile in the third column of the twenty-eighth row.\<close>

definition labelledTile :: page where
  "labelledTile = zeroPage\<lparr>tileX := 2, tileY := 27\<rparr>"

text \<open>
  Two page bodies with a coordinate beyond the range of \<^verbatim>\<open>float32\<close>, written as a
  real number of PDF: in the media box, and in the bleed box of a page whose trim box
  is not valid. The second body within the text of a page object.
\<close>

definition rangeBody :: string where
  "rangeBody = ''  /Contents 4 0 R\<newline>  /MediaBox [0 0 400000000000000000000000000000000000000.0 9]\<newline>  /Type /Page''"

definition trimBody :: string where
  "trimBody = ''  /Contents 4 0 R\<newline>  /MediaBox [0 0 9 9]\<newline>  /BleedBox [0 0 400000000000000000000000000000000000000.0 9]\<newline>  /TrimBox [5 5 0 0]\<newline>  /Type /Page''"

definition trimDoc :: string where
  "trimDoc = ''%% Page 1\<newline>%% Original object ID: 3 0\<newline>3 0 obj\<newline><<\<newline>'' @ trimBody
     @ ''\<newline>>>\<newline>endobj\<newline>''"

text \<open>The flag before \<^verbatim>\<open>Set\<close>, and a table without paper sizes.\<close>

definition zeroFlag :: TileSizeFlag where
  "zeroFlag = \<lparr>name = [], width = Fin 0, height = Fin 0, isDim = False\<rparr>"

definition noPaper :: "string \<Rightarrow> (string \<times> real \<times> real) option" where
  "noPaper s = None"

text \<open>A pattern that begins with \<open>Bol\<close> matches at the start of a line only.\<close>

primrec anchored :: "re \<Rightarrow> bool" where
  "anchored (Lit l) = False"
| "anchored (One p) = False"
| "anchored (Star p) = False"
| "anchored (Plus p) = False"
| "anchored (LazyStar p) = False"
| "anchored Bol = True"
| "anchored Bot = False"
| "anchored Eot = False"
| "anchored (Opt r) = False"
| "anchored (Seq r1 r2) = anchored r1"
| "anchored (Alt r1 r2) = False"
| "anchored (Grp n r) = anchored r"

text \<open>The numbers of the groups of a pattern, and the units of the tile size.\<close>

primrec grps :: "re \<Rightarrow> nat set" where
  "grps (Lit l) = {}"
| "grps (One p) = {}"
| "grps (Star p) = {}"
| "grps (Plus p) = {}"
| "grps (LazyStar p) = {}"
| "grps Bol = {}"
| "grps Bot = {}"
| "grps Eot = {}"
| "grps (Opt r) = grps r"
| "grps (Seq r1 r2) = grps r1 \<union> grps r2"
| "grps (Alt r1 r2) = grps r1 \<union> grps r2"
| "grps (Grp n r) = insert n (grps r)"

definition units :: "string set" where
  "units = {''mm'', ''cm'', ''in'', ''pt''}"

section \<open>Properties\<close>

subsection \<open>Rounding to \<^verbatim>\<open>float32\<close>\<close>

text \<open>
  The facts about rounding that the properties below rest on: a rounded result is a
  value of \<^verbatim>\<open>float32\<close>, a value of \<^verbatim>\<open>float32\<close> is not changed by rounding, rounding is
  monotone, and the error of a finite result is at most half of the distance between
  neighbouring values.
\<close>

lemma nbits_0 [simp]: "nbits 0 = 0"
  by (simp add: nbits.simps)

lemma nbits_pos: "0 < n \<Longrightarrow> nbits n = Suc (nbits (n div 2))"
  by (subst nbits.simps) simp

lemma nbits_bounds: "0 < n \<Longrightarrow> 2 ^ (nbits n - 1) \<le> n \<and> n < 2 ^ nbits n"
proof (induction n rule: nbits.induct)
  case (1 n)
  show ?case
  proof (cases "n div 2 = 0")
    case True
    with 1(2) have "n = 1" by (cases n) auto
    then show ?thesis by (simp add: nbits_pos)
  next
    case False
    then have pos: "0 < n div 2" by simp
    from 1(1)[OF _ pos] 1(2)
    have ih: "2 ^ (nbits (n div 2) - 1) \<le> n div 2" "n div 2 < 2 ^ nbits (n div 2)" by auto
    have nb: "nbits n = Suc (nbits (n div 2))" using 1(2) by (rule nbits_pos)
    have pos': "0 < nbits (n div 2)" using pos by (simp add: nbits_pos)
    have "2 ^ (nbits n - 1) = 2 * 2 ^ (nbits (n div 2) - 1)"
      using pos' by (simp add: nb flip: power_Suc)
    also have "\<dots> \<le> 2 * (n div 2)" using ih(1) by simp
    also have "\<dots> \<le> n" by simp
    finally have lo: "2 ^ (nbits n - 1) \<le> n" .
    have "n < 2 * (n div 2) + 2" by presburger
    also have "\<dots> \<le> 2 * 2 ^ nbits (n div 2)" using ih(2) by simp
    finally have "n < 2 ^ nbits n" by (simp add: nb)
    with lo show ?thesis by simp
  qed
qed

lemma nbits_unique:
  assumes "2 ^ k \<le> n" "n < 2 ^ Suc k"
  shows "nbits n = Suc k"
proof -
  have pos: "0 < n" using assms(1) by (metis gr0I not_less_eq_eq power_eq_0_iff zero_neq_numeral le_zero_eq)
  from nbits_bounds[OF pos] have b: "2 ^ (nbits n - 1) \<le> n" "n < 2 ^ nbits n" by auto
  have "(2::nat) ^ k < 2 ^ nbits n" using assms(1) b(2) by (rule le_less_trans)
  then have 1: "k < nbits n" by simp
  have "(2::nat) ^ (nbits n - 1) < 2 ^ Suc k" using b(1) assms(2) by (rule le_less_trans)
  then have "nbits n - 1 < Suc k" by (simp only: power_strict_increasing_iff one_less_numeral_iff semiring_norm)
  with 1 show ?thesis by simp
qed

lemma nbits_mono: "m \<le> n \<Longrightarrow> nbits m \<le> nbits n"
proof (cases "m = 0")
  case True then show ?thesis by simp
next
  case False
  assume mn: "m \<le> n"
  from False have m: "0 < m" by simp
  with mn have n: "0 < n" by simp
  from nbits_bounds[OF m] nbits_bounds[OF n] mn
  have "(2::nat) ^ (nbits m - 1) < 2 ^ nbits n" by linarith
  then have "nbits m - 1 < nbits n" by (simp only: power_strict_increasing_iff one_less_numeral_iff semiring_norm)
  then show ?thesis by simp
qed


lemma quantum_pos: "0 < quantum x"
  by (simp add: quantum_def)

lemma quantum_neg: "quantum (- x) = quantum x"
  by (simp add: quantum_def)

lemma quantum_abs: "quantum \<bar>x\<bar> = quantum x"
  by (simp add: quantum_def)

lemma quantum_mono: "\<bar>x\<bar> \<le> \<bar>y\<bar> \<Longrightarrow> quantum x \<le> quantum y"
proof -
  assume a: "\<bar>x\<bar> \<le> \<bar>y\<bar>"
  then have "\<bar>x\<bar> * 2 ^ 126 \<le> \<bar>y\<bar> * 2 ^ 126" by simp
  then have "nat \<lfloor>\<bar>x\<bar> * 2 ^ 126\<rfloor> \<le> nat \<lfloor>\<bar>y\<bar> * 2 ^ 126\<rfloor>"
    by (intro nat_mono floor_mono)
  then have "nbits (nat \<lfloor>\<bar>x\<bar> * 2 ^ 126\<rfloor>) - 1 \<le> nbits (nat \<lfloor>\<bar>y\<bar> * 2 ^ 126\<rfloor>) - 1"
    by (intro diff_le_mono nbits_mono)
  then have "(2::real) ^ (nbits (nat \<lfloor>\<bar>x\<bar> * 2 ^ 126\<rfloor>) - 1) \<le> 2 ^ (nbits (nat \<lfloor>\<bar>y\<bar> * 2 ^ 126\<rfloor>) - 1)"
    by (intro power_increasing) simp_all
  then show ?thesis unfolding quantum_def by (intro divide_right_mono) simp_all
qed

lemma quantum_eq:
  assumes "2 ^ k \<le> \<bar>x\<bar> * 2 ^ 126" "\<bar>x\<bar> * 2 ^ 126 < 2 ^ Suc k"
  shows "quantum x = 2 ^ k / 2 ^ 149"
proof -
  let ?n = "nat \<lfloor>\<bar>x\<bar> * 2 ^ 126\<rfloor>"
  have "(2::int) ^ k \<le> \<lfloor>\<bar>x\<bar> * 2 ^ 126\<rfloor>" using assms(1) by (simp add: le_floor_iff)
  then have 1: "2 ^ k \<le> ?n" by (simp add: le_nat_iff)
  have "\<lfloor>\<bar>x\<bar> * 2 ^ 126\<rfloor> < (2::int) ^ Suc k" using assms(2) by (simp add: floor_less_iff)
  then have 2: "?n < 2 ^ Suc k" by (simp add: nat_less_iff)
  from nbits_unique[OF 1 2] show ?thesis by (simp add: quantum_def)
qed

lemma quantum_small:
  assumes "\<bar>x\<bar> * 2 ^ 126 < 2"
  shows "quantum x = 1 / 2 ^ 149"
proof -
  have "\<lfloor>\<bar>x\<bar> * 2 ^ 126\<rfloor> < 2" using assms by (simp add: floor_less_iff)
  moreover have "0 \<le> \<lfloor>\<bar>x\<bar> * 2 ^ 126\<rfloor>" by simp
  ultimately have "nat \<lfloor>\<bar>x\<bar> * 2 ^ 126\<rfloor> = 0 \<or> nat \<lfloor>\<bar>x\<bar> * 2 ^ 126\<rfloor> = 1" by linarith
  then show ?thesis by (auto simp: quantum_def nbits_pos)
qed

lemma quantum_power: "\<exists>j. quantum x = 2 ^ j / 2 ^ 149"
  unfolding quantum_def by blast

lemma quantum_ge: "1 / 2 ^ 149 \<le> quantum x"
proof -
  have "(1::real) \<le> 2 ^ (nbits (nat \<lfloor>\<bar>x\<bar> * 2 ^ 126\<rfloor>) - 1)" by simp
  then show ?thesis unfolding quantum_def by (intro divide_right_mono) simp_all
qed

lemma quantum_upper: "\<bar>x\<bar> < quantum x * 2 ^ 24"
proof (cases "\<bar>x\<bar> * 2 ^ 126 < 1")
  case True
  then have "\<bar>x\<bar> < 1 / 2 ^ 126" by (simp add: field_simps)
  also have "\<dots> = (1 / 2 ^ 149) * 2 ^ 23" by simp
  also have "\<dots> \<le> quantum x * 2 ^ 23" using quantum_ge[of x] by (intro mult_right_mono) simp_all
  also have "\<dots> \<le> quantum x * 2 ^ 24" using quantum_pos[of x] by (intro mult_left_mono) simp_all
  finally show ?thesis .
next
  case False
  let ?n = "nat \<lfloor>\<bar>x\<bar> * 2 ^ 126\<rfloor>"
  from False have "1 \<le> \<lfloor>\<bar>x\<bar> * 2 ^ 126\<rfloor>" by (simp add: le_floor_iff)
  then have pos: "0 < ?n" by simp
  from nbits_bounds[OF pos] have "?n < 2 ^ nbits ?n" by simp
  then have "\<lfloor>\<bar>x\<bar> * 2 ^ 126\<rfloor> < 2 ^ nbits ?n" using pos by (simp add: nat_less_iff)
  then have "\<bar>x\<bar> * 2 ^ 126 < 2 ^ nbits ?n" by (simp add: floor_less_iff)
  moreover have "nbits ?n = Suc (nbits ?n - 1)" using pos by (simp add: nbits_pos)
  ultimately have "\<bar>x\<bar> * 2 ^ 126 < 2 * 2 ^ (nbits ?n - 1)" by (metis power_Suc)
  then have "\<bar>x\<bar> < 2 * 2 ^ (nbits ?n - 1) / 2 ^ 126" by (simp add: field_simps)
  also have "\<dots> = quantum x * 2 ^ 24" by (simp add: quantum_def)
  finally show ?thesis .
qed

lemma quantum_lower:
  assumes "1 \<le> \<bar>x\<bar> * 2 ^ 126"
  shows "quantum x * 2 ^ 23 \<le> \<bar>x\<bar>"
proof -
  let ?n = "nat \<lfloor>\<bar>x\<bar> * 2 ^ 126\<rfloor>"
  from assms have "1 \<le> \<lfloor>\<bar>x\<bar> * 2 ^ 126\<rfloor>" by (simp add: le_floor_iff)
  then have pos: "0 < ?n" by simp
  from nbits_bounds[OF pos] have "2 ^ (nbits ?n - 1) \<le> ?n" by simp
  then have "(2::int) ^ (nbits ?n - 1) \<le> \<lfloor>\<bar>x\<bar> * 2 ^ 126\<rfloor>" by (simp add: le_nat_iff)
  then have "2 ^ (nbits ?n - 1) \<le> \<bar>x\<bar> * 2 ^ 126" by (simp add: le_floor_iff)
  then have "2 ^ (nbits ?n - 1) / 2 ^ 126 \<le> \<bar>x\<bar>" by (simp add: field_simps)
  moreover have "quantum x * 2 ^ 23 = 2 ^ (nbits ?n - 1) / 2 ^ 126" by (simp add: quantum_def)
  ultimately show ?thesis by simp
qed

lemma roundEven_cases: "roundEven y = \<lfloor>y\<rfloor> \<or> roundEven y = \<lfloor>y\<rfloor> + 1"
  by (simp add: roundEven_def Let_def)

lemma roundEven_int [simp]: "roundEven (of_int k) = k"
  by (simp add: roundEven_def)

lemma roundEven_0 [simp]: "roundEven 0 = 0"
  using roundEven_int[of 0] by simp

lemma roundEven_numeral [simp]: "roundEven (numeral n) = numeral n"
  using roundEven_int[of "numeral n"] by simp

lemma roundEven_err: "\<bar>of_int (roundEven y) - y\<bar> \<le> 1 / 2"
proof -
  have "of_int \<lfloor>y\<rfloor> \<le> y" "y < of_int \<lfloor>y\<rfloor> + 1" by linarith+
  then show ?thesis by (auto simp: roundEven_def Let_def abs_le_iff)
qed

lemma roundEven_mono: "x \<le> y \<Longrightarrow> roundEven x \<le> roundEven y"
proof -
  assume xy: "x \<le> y"
  then have fl: "\<lfloor>x\<rfloor> \<le> \<lfloor>y\<rfloor>" by (rule floor_mono)
  show ?thesis
  proof (cases "\<lfloor>x\<rfloor> = \<lfloor>y\<rfloor>")
    case True
    then show ?thesis using xy by (auto simp: roundEven_def Let_def)
  next
    case False
    with fl have "\<lfloor>x\<rfloor> + 1 \<le> \<lfloor>y\<rfloor>" by simp
    moreover have "roundEven x \<le> \<lfloor>x\<rfloor> + 1" using roundEven_cases[of x] by auto
    moreover have "\<lfloor>y\<rfloor> \<le> roundEven y" using roundEven_cases[of y] by auto
    ultimately show ?thesis by linarith
  qed
qed

lemma roundEven_le_int: "y \<le> of_int k \<Longrightarrow> roundEven y \<le> k"
  using roundEven_mono[of y "of_int k"] by simp

lemma roundEven_ge_int: "of_int k \<le> y \<Longrightarrow> k \<le> roundEven y"
  using roundEven_mono[of "of_int k" y] by simp

lemma roundEven_neg: "roundEven (- y) = - roundEven y"
proof (cases "y = of_int \<lfloor>y\<rfloor>")
  case True
  then obtain k where "y = of_int k" ..
  then have "- y = of_int (- k)" by simp
  then show ?thesis using \<open>y = of_int k\<close> by (metis roundEven_int)
next
  case False
  then have c: "\<lceil>y\<rceil> = \<lfloor>y\<rfloor> + 1" by (simp add: ceiling_altdef)
  have f: "\<lfloor>- y\<rfloor> = - \<lfloor>y\<rfloor> - 1" using c by (simp add: ceiling_def)
  have "of_int \<lfloor>y\<rfloor> \<le> y" "y < of_int \<lfloor>y\<rfloor> + 1" by linarith+
  then show ?thesis unfolding roundEven_def Let_def f by auto
qed


lemma quantum_unique:
  assumes "q = 2 ^ j / 2 ^ 149" "q * 2 ^ 23 \<le> \<bar>y\<bar>" "\<bar>y\<bar> < q * 2 ^ 24"
  shows "quantum y = q"
proof -
  have "2 ^ j \<le> \<bar>y\<bar> * 2 ^ 126" using assms(1,2) by (simp add: field_simps)
  moreover have "\<bar>y\<bar> * 2 ^ 126 < 2 ^ Suc j" using assms(1,3) by (simp add: field_simps)
  ultimately show ?thesis unfolding assms(1) by (rule quantum_eq)
qed

lemma nearest32_0 [simp]: "nearest32 0 = 0"
  by (simp add: nearest32_def)

lemma nearest32_neg: "nearest32 (- x) = - nearest32 x"
  by (simp add: nearest32_def quantum_neg roundEven_neg)

lemma nearest32_err: "\<bar>nearest32 x - x\<bar> \<le> quantum x / 2"
proof -
  let ?q = "quantum x"
  have q: "0 < ?q" by (rule quantum_pos)
  have "nearest32 x - x = (of_int (roundEven (x / ?q)) - x / ?q) * ?q"
    using q by (simp add: nearest32_def field_simps)
  then have "\<bar>nearest32 x - x\<bar> = \<bar>of_int (roundEven (x / ?q)) - x / ?q\<bar> * ?q"
    using q by (simp add: abs_mult)
  also have "\<dots> \<le> (1 / 2) * ?q"
    using q roundEven_err[of "x / ?q"] by (intro mult_right_mono) simp_all
  finally show ?thesis by simp
qed

lemma nearest32_nonneg: "0 \<le> x \<Longrightarrow> 0 \<le> nearest32 x"
proof -
  assume "0 \<le> x"
  then have "of_int 0 \<le> x / quantum x" using quantum_pos[of x] by simp
  then have "0 \<le> roundEven (x / quantum x)" by (rule roundEven_ge_int)
  then show ?thesis using quantum_pos[of x] by (simp add: nearest32_def)
qed

lemma nearest32_upper: "0 \<le> x \<Longrightarrow> nearest32 x \<le> quantum x * 2 ^ 24"
proof -
  assume "0 \<le> x"
  then have "x < quantum x * 2 ^ 24" using quantum_upper[of x] by simp
  then have "x / quantum x \<le> of_int (2 ^ 24)" using quantum_pos[of x] by (simp add: field_simps)
  then have "roundEven (x / quantum x) \<le> 2 ^ 24" by (rule roundEven_le_int)
  then have "(of_int (roundEven (x / quantum x)) :: real) \<le> of_int (2 ^ 24)" by (simp only: of_int_le_iff)
  then have "of_int (roundEven (x / quantum x)) * quantum x \<le> of_int (2 ^ 24) * quantum x"
    using quantum_pos[of x] by (intro mult_right_mono) simp_all
  then show ?thesis by (simp add: nearest32_def mult.commute)
qed

lemma nearest32_lower: "0 \<le> x \<Longrightarrow> 1 \<le> x * 2 ^ 126 \<Longrightarrow> quantum x * 2 ^ 23 \<le> nearest32 x"
proof -
  assume x: "0 \<le> x" and n: "1 \<le> x * 2 ^ 126"
  then have "quantum x * 2 ^ 23 \<le> x" using quantum_lower[of x] by simp
  then have "of_int (2 ^ 23) \<le> x / quantum x" using quantum_pos[of x] by (simp add: field_simps)
  then have "2 ^ 23 \<le> roundEven (x / quantum x)" by (rule roundEven_ge_int)
  then have "(of_int (2 ^ 23) :: real) \<le> of_int (roundEven (x / quantum x))" by (simp only: of_int_le_iff)
  then have "of_int (2 ^ 23) * quantum x \<le> of_int (roundEven (x / quantum x)) * quantum x"
    using quantum_pos[of x] by (intro mult_right_mono) simp_all
  then show ?thesis by (simp add: nearest32_def mult.commute)
qed

lemma nearest32_mono_nonneg:
  assumes "0 \<le> x" "x \<le> y"
  shows "nearest32 x \<le> nearest32 y"
proof -
  have y: "0 \<le> y" using assms by simp
  have qq: "quantum x \<le> quantum y" using assms by (intro quantum_mono) simp
  show ?thesis
  proof (cases "quantum x = quantum y")
    case True
    have "x / quantum y \<le> y / quantum y" using assms(2) quantum_pos[of y] by (simp add: divide_right_mono)
    then have "roundEven (x / quantum y) \<le> roundEven (y / quantum y)" by (rule roundEven_mono)
    then have "(of_int (roundEven (x / quantum y)) :: real) \<le> of_int (roundEven (y / quantum y))"
      by (simp only: of_int_le_iff)
    then show ?thesis unfolding nearest32_def True
      using quantum_pos[of y] by (intro mult_right_mono) simp_all
  next
    case False
    with qq have lt: "quantum x < quantum y" by simp
    obtain i where i: "quantum x = 2 ^ i / 2 ^ 149" using quantum_power by blast
    obtain j where j: "quantum y = 2 ^ j / 2 ^ 149" using quantum_power by blast
    from lt have "(2::real) ^ i < 2 ^ j" unfolding i j by (simp add: divide_strict_right_mono)
    then have "i < j" by simp
    then have "Suc i \<le> j" by simp
    then have "(2::real) ^ Suc i \<le> 2 ^ j" by (intro power_increasing) simp_all
    then have dbl: "2 * quantum x \<le> quantum y" unfolding i j by (simp add: divide_right_mono)
    have "\<not> y * 2 ^ 126 < 2"
    proof
      assume "y * 2 ^ 126 < 2"
      then have "quantum y = 1 / 2 ^ 149" using y by (intro quantum_small) simp
      with quantum_ge[of x] lt show False by simp
    qed
    then have "1 \<le> y * 2 ^ 126" by simp
    from nearest32_lower[OF y this] have "quantum y * 2 ^ 23 \<le> nearest32 y" .
    moreover have "nearest32 x \<le> quantum x * 2 ^ 24" using assms(1) by (rule nearest32_upper)
    moreover have "quantum x * 2 ^ 24 \<le> quantum y * 2 ^ 23" using dbl by simp
    ultimately show ?thesis by linarith
  qed
qed

lemma nearest32_mono: "x \<le> y \<Longrightarrow> nearest32 x \<le> nearest32 y"
proof -
  assume xy: "x \<le> y"
  consider "0 \<le> x" | "y \<le> 0" | "x < 0" "0 < y" by linarith
  then show ?thesis
  proof cases
    case 1 then show ?thesis using xy by (rule nearest32_mono_nonneg)
  next
    case 2
    then have "nearest32 (- y) \<le> nearest32 (- x)" using xy by (intro nearest32_mono_nonneg) simp_all
    then show ?thesis by (simp add: nearest32_neg)
  next
    case 3
    have "0 \<le> nearest32 (- x)" using 3 by (intro nearest32_nonneg) simp
    moreover have "0 \<le> nearest32 y" using 3 by (intro nearest32_nonneg) simp
    ultimately show ?thesis by (simp add: nearest32_neg)
  qed
qed

lemma nearest32_exact:
  assumes "of_int \<lfloor>y / quantum y\<rfloor> = y / quantum y"
  shows "nearest32 y = y"
proof -
  have "roundEven (y / quantum y) = \<lfloor>y / quantum y\<rfloor>" by (subst assms[symmetric]) simp
  then have "nearest32 y = of_int \<lfloor>y / quantum y\<rfloor> * quantum y" by (simp add: nearest32_def)
  also have "\<dots> = y / quantum y * quantum y" by (simp only: assms)
  also have "\<dots> = y" using quantum_pos[of y] by simp
  finally show ?thesis .
qed

lemma nearest32_grid_nonneg:
  assumes "0 \<le> x"
  shows "of_int \<lfloor>nearest32 x / quantum (nearest32 x)\<rfloor> = nearest32 x / quantum (nearest32 x)"
proof -
  let ?q = "quantum x"
  let ?k = "roundEven (x / ?q)"
  let ?y = "nearest32 x"
  have q: "0 < ?q" by (rule quantum_pos)
  have y: "?y = of_int ?k * ?q" by (simp add: nearest32_def)
  have y0: "0 \<le> ?y" using assms by (rule nearest32_nonneg)
  have yu: "?y \<le> ?q * 2 ^ 24" using assms by (rule nearest32_upper)
  obtain j where j: "?q = 2 ^ j / 2 ^ 149" using quantum_power by blast
  show ?thesis
  proof (cases "x * 2 ^ 126 < 1")
    case True
    then have qs: "?q = 1 / 2 ^ 149" using assms by (intro quantum_small) simp
    have "x / ?q \<le> of_int (2 ^ 23)" using True by (simp add: qs field_simps)
    then have "?k \<le> 2 ^ 23" by (rule roundEven_le_int)
    then have "(of_int ?k :: real) \<le> of_int (2 ^ 23)" by (simp only: of_int_le_iff)
    then have "?y * 2 ^ 126 \<le> 1" by (simp add: y qs field_simps)
    then have "quantum ?y = 1 / 2 ^ 149" using y0 by (intro quantum_small) simp
    then have "quantum ?y = ?q" by (simp only: qs)
    then have "?y / quantum ?y = of_int ?k * ?q / ?q" by (simp only: y)
    also have "\<dots> = of_int ?k" using q by simp
    finally show ?thesis by (simp only: floor_of_int)
  next
    case False
    then have n: "1 \<le> x * 2 ^ 126" by simp
    have yl: "?q * 2 ^ 23 \<le> ?y" using assms n by (rule nearest32_lower)
    show ?thesis
    proof (cases "?y < ?q * 2 ^ 24")
      case True
      have "quantum ?y = ?q" by (rule quantum_unique[OF j]) (use yl True y0 in simp_all)
      then have "?y / quantum ?y = of_int ?k * ?q / ?q" by (simp only: y)
      also have "\<dots> = of_int ?k" using q by simp
      finally show ?thesis by (simp only: floor_of_int)
    next
      case False
      with yu have e: "?y = ?q * 2 ^ 24" by simp
      have "quantum ?y = 2 ^ Suc j / 2 ^ 149"
        using y0 by (intro quantum_eq) (simp_all add: e j)
      then have "quantum ?y = 2 * ?q" by (simp add: j)
      then have "?y / quantum ?y = of_int (2 ^ 23)" using q by (simp add: e)
      then show ?thesis by (simp only: floor_of_int)
    qed
  qed
qed

lemma nearest32_grid:
  "of_int \<lfloor>nearest32 x / quantum (nearest32 x)\<rfloor> = nearest32 x / quantum (nearest32 x)"
proof (cases "0 \<le> x")
  case True then show ?thesis by (rule nearest32_grid_nonneg)
next
  case False
  then have "0 \<le> - x" by simp
  from nearest32_grid_nonneg[OF this]
  obtain k :: int where "nearest32 (- x) / quantum (nearest32 (- x)) = of_int k" by metis
  then have "nearest32 x / quantum (nearest32 x) = of_int (- k)"
    by (simp add: nearest32_neg quantum_neg)
  then show ?thesis by (simp only: floor_of_int)
qed

lemma nearest32_idem: "nearest32 (nearest32 x) = nearest32 x"
  using nearest32_grid by (rule nearest32_exact)


lemma round32_cases:
  obtains (fin) "\<bar>nearest32 x\<bar> < 2 ^ 128" "round32 x = Fin (nearest32 x)"
  | (pos) "0 < x" "round32 x = PosInf"
  | (neg) "x < 0" "round32 x = NegInf"
proof (cases "2 ^ 128 \<le> \<bar>nearest32 x\<bar>")
  case False
  then show ?thesis using fin by (simp add: round32_def Let_def)
next
  case True
  have "x \<noteq> 0"
  proof
    assume "x = 0"
    then have "nearest32 x = 0" by simp
    with True show False by simp
  qed
  then show ?thesis using True pos neg by (cases "0 < x") (simp_all add: round32_def Let_def)
qed

lemma round32_not_NaN [simp]: "round32 x \<noteq> NaN"
  by (cases x rule: round32_cases) simp_all

lemma round32_Fin: "round32 x = Fin y \<Longrightarrow> y = nearest32 x \<and> \<bar>y\<bar> < 2 ^ 128"
  by (cases x rule: round32_cases) simp_all

lemma round32_wf [simp]: "wf32 (round32 x)"
proof (cases x rule: round32_cases)
  case fin
  then show ?thesis by (simp add: isF32_def nearest32_grid)
qed simp_all

lemma round32_exact: "isF32 y \<Longrightarrow> round32 y = Fin y"
  by (simp add: isF32_def round32_def nearest32_exact Let_def)

lemma round32_neg: "round32 (- x) = fneg (round32 x)"
proof (cases "x = 0")
  case True
  then show ?thesis by (simp add: round32_def Let_def)
next
  case False
  then show ?thesis by (auto simp: round32_def nearest32_neg Let_def)
qed

lemma round32_mono: "x \<le> y \<Longrightarrow> fle (round32 x) (round32 y)"
proof -
  assume xy: "x \<le> y"
  then have m: "nearest32 x \<le> nearest32 y" by (rule nearest32_mono)
  show ?thesis
  proof (cases x rule: round32_cases)
    case neg then show ?thesis by (cases y rule: round32_cases) simp_all
  next
    case pos
    then have big: "2 ^ 128 \<le> \<bar>nearest32 x\<bar>" by (auto simp: round32_def Let_def split: if_splits)
    have "0 \<le> nearest32 x" using pos by (intro nearest32_nonneg) simp
    with big m have "2 ^ 128 \<le> \<bar>nearest32 y\<bar>" by simp
    moreover have "0 < y" using pos xy by simp
    ultimately show ?thesis using pos by (simp add: round32_def Let_def)
  next
    case fin
    show ?thesis
    proof (cases y rule: round32_cases)
      case pos then show ?thesis using fin by simp
    next
      case fin2: fin then show ?thesis using fin m by simp
    next
      case neg
      then have big: "2 ^ 128 \<le> \<bar>nearest32 y\<bar>" by (auto simp: round32_def Let_def split: if_splits)
      have "nearest32 y \<le> 0" using neg nearest32_nonneg[of "- y"] by (simp add: nearest32_neg)
      with big m have "2 ^ 128 \<le> \<bar>nearest32 x\<bar>" by simp
      with fin show ?thesis by simp
    qed
  qed
qed

lemma round32_err:
  assumes "round32 x = Fin y"
  shows "\<bar>y - x\<bar> \<le> \<bar>x\<bar> / 2 ^ 24 + 1 / 2 ^ 150"
proof -
  from round32_Fin[OF assms] have y: "y = nearest32 x" by simp
  have e: "\<bar>y - x\<bar> \<le> quantum x / 2" unfolding y by (rule nearest32_err)
  show ?thesis
  proof (cases "1 \<le> \<bar>x\<bar> * 2 ^ 126")
    case True
    then have "quantum x * 2 ^ 23 \<le> \<bar>x\<bar>" by (rule quantum_lower)
    then have "quantum x / 2 \<le> \<bar>x\<bar> / 2 ^ 24" by simp
    with e show ?thesis by simp
  next
    case False
    then have qs: "quantum x = 1 / 2 ^ 149" by (intro quantum_small) simp
    have "\<bar>y - x\<bar> \<le> (1 / 2 ^ 149) / 2" using e unfolding qs .
    also have "\<dots> = 1 / 2 ^ 150" by simp
    finally have "\<bar>y - x\<bar> \<le> 1 / 2 ^ 150" .
    moreover have "0 \<le> \<bar>x\<bar> / 2 ^ 24" by simp
    ultimately show ?thesis by linarith
  qed
qed

lemma round32_finite:
  assumes "\<bar>x\<bar> \<le> 2 ^ 127"
  shows "\<exists>y. round32 x = Fin y"
proof -
  have q: "quantum (2 ^ 127) = 2 ^ 104" 
  proof -
    have "quantum (2 ^ 127) = 2 ^ 253 / 2 ^ 149" by (rule quantum_eq) simp_all
    then show ?thesis by simp
  qed
  have "(2::real) ^ 127 / 2 ^ 104 = of_int (2 ^ 23)" by simp
  then have r: "roundEven (2 ^ 127 / 2 ^ 104) = 2 ^ 23" by (simp only: roundEven_int)
  have "nearest32 (2 ^ 127) = of_int (roundEven (2 ^ 127 / quantum (2 ^ 127))) * quantum (2 ^ 127)"
    by (simp only: nearest32_def)
  also have "\<dots> = of_int (2 ^ 23) * 2 ^ 104" by (simp only: q r)
  also have "\<dots> = 2 ^ 127" by simp
  finally have n: "nearest32 (2 ^ 127) = 2 ^ 127" .
  have "nearest32 x \<le> nearest32 (2 ^ 127)" using assms by (intro nearest32_mono) simp
  then have u: "nearest32 x \<le> 2 ^ 127" unfolding n .
  have "nearest32 (- (2 ^ 127)) \<le> nearest32 x" using assms by (intro nearest32_mono) simp
  then have l: "- (2 ^ 127) \<le> nearest32 x" unfolding nearest32_neg n .
  from u l have "\<bar>nearest32 x\<bar> \<le> 2 ^ 127" by (simp only: abs_le_iff) simp
  then have "\<bar>nearest32 x\<bar> < 2 ^ 128" by simp
  then show ?thesis by (simp add: round32_def Let_def)
qed

lemma round32_dyadic:
  assumes "x * 2 ^ k \<in> \<int>" "\<bar>x\<bar> * 2 ^ k < 2 ^ 24" "k \<le> 149"
  shows "round32 x = Fin x"
proof (rule round32_exact, unfold isF32_def, intro conjI)
  have "\<bar>x\<bar> * 1 \<le> \<bar>x\<bar> * 2 ^ k" by (intro mult_left_mono) simp_all
  with assms(2) show "\<bar>x\<bar> < 2 ^ 128" by simp
  obtain j where j: "quantum x = 2 ^ j / 2 ^ 149" using quantum_power by blast
  obtain n :: int where n: "x * 2 ^ k = of_int n" using assms(1) by (auto elim: Ints_cases)
  have "j + k \<le> 149"
  proof (cases "1 \<le> \<bar>x\<bar> * 2 ^ 126")
    case True
    then have "quantum x * 2 ^ 23 \<le> \<bar>x\<bar>" by (rule quantum_lower)
    then have "quantum x * 2 ^ 23 * 2 ^ k \<le> \<bar>x\<bar> * 2 ^ k" by (intro mult_right_mono) simp_all
    then have "quantum x * 2 ^ 23 * 2 ^ k < 2 ^ 24" using assms(2) by (rule le_less_trans)
    then have "2 ^ j / 2 ^ 149 * 2 ^ 23 * 2 ^ k < (2::real) ^ 24" unfolding j .
    then have "(2::real) ^ j * 2 ^ k < 2 ^ 150" by (simp add: field_simps)
    then have "(2::real) ^ (j + k) < 2 ^ 150" by (simp only: power_add)
    then have "j + k < 150" by (simp only: power_strict_increasing_iff one_less_numeral_iff semiring_norm)
    then show ?thesis by simp
  next
    case False
    then have "quantum x = 1 / 2 ^ 149" by (intro quantum_small) simp
    with j have "(2::real) ^ j = 2 ^ 0" by simp
    then have "j = 0" by (simp only: power_inject_exp one_less_numeral_iff semiring_norm)
    with assms(3) show ?thesis by simp
  qed
  then obtain d where d: "149 = j + k + d" using le_Suc_ex by blast
  have "x / quantum x = x * 2 ^ 149 / 2 ^ j" by (simp add: j)
  also have "\<dots> = x * 2 ^ k * 2 ^ d" by (simp add: d power_add)
  also have "\<dots> = of_int (n * 2 ^ d)" by (simp add: n)
  finally have "x / quantum x = of_int (n * 2 ^ d)" .
  then show "of_int \<lfloor>x / quantum x\<rfloor> = x / quantum x" by (simp only: floor_of_int)
qed

lemma round32_Ints: "x \<in> \<int> \<Longrightarrow> \<bar>x\<bar> < 2 ^ 24 \<Longrightarrow> round32 x = Fin x"
  using round32_dyadic[of x 0] by simp

lemma round32_eval:
  assumes "2 ^ k \<le> \<bar>x\<bar> * 2 ^ 126" "\<bar>x\<bar> * 2 ^ 126 < 2 ^ Suc k"
    and "roundEven (x * 2 ^ 149 / 2 ^ k) = n" "\<bar>of_int n * 2 ^ k / 2 ^ 149\<bar> < (2::real) ^ 128"
  shows "round32 x = Fin (of_int n * 2 ^ k / 2 ^ 149)"
proof -
  have q: "quantum x = 2 ^ k / 2 ^ 149" using assms(1,2) by (rule quantum_eq)
  have "x / (2 ^ k / 2 ^ 149) = x * 2 ^ 149 / 2 ^ k" by simp
  then have "nearest32 x = of_int n * (2 ^ k / 2 ^ 149)"
    unfolding nearest32_def q using assms(3) by (simp only:)
  then have n: "nearest32 x = of_int n * 2 ^ k / 2 ^ 149" by simp
  show ?thesis unfolding round32_def Let_def n using assms(4) by (simp only: not_le[symmetric] if_False)
qed

subsection \<open>The operations of \<^verbatim>\<open>float32\<close>\<close>

lemma isF32_0 [simp]: "isF32 0"
  by (simp add: isF32_def)

lemma isF32_neg: "isF32 (- y) = isF32 y"
proof -
  have "(of_int \<lfloor>- z\<rfloor> = - z) = (of_int \<lfloor>z\<rfloor> = z)" for z :: real
    unfolding of_int_floor_cancel by (metis add.inverse_inverse of_int_minus)
  from this[of "y / quantum y"] show ?thesis by (simp add: isF32_def quantum_neg)
qed

lemma isF32_abs: "isF32 \<bar>y\<bar> = isF32 y"
  by (cases "0 \<le> y") (simp_all add: isF32_neg abs_if)

lemma isF32_nearest: "isF32 y \<Longrightarrow> nearest32 y = y"
  by (simp add: isF32_def nearest32_exact)

lemma fadd_wf [simp]: "wf32 (fadd a b)"
  by (cases a; cases b) simp_all

lemma fneg_wf [simp]: "wf32 (fneg a) = wf32 a"
  by (cases a) (simp_all add: isF32_neg)

lemma fsub_wf [simp]: "wf32 (fsub a b)"
  by (simp add: fsub_def)

lemma fmul_wf [simp]: "wf32 (fmul a b)"
  by (cases a; cases b) simp_all

lemma fdiv_wf [simp]: "wf32 (fdiv a b)"
  by (cases a; cases b) simp_all

lemma ofInt32_wf [simp]: "wf32 (ofInt32 n)"
  by (simp add: ofInt32_def)

lemma fsub_Fin: "fsub (Fin a) (Fin b) = round32 (a - b)"
  by (simp add: fsub_def)

lemma fle_refl: "a \<noteq> NaN \<Longrightarrow> fle a a"
  by (cases a) simp_all

lemma fle_trans: "fle a b \<Longrightarrow> fle b c \<Longrightarrow> fle a c"
  by (cases a; cases b; cases c) simp_all

lemma fadd_not_NaN: "a \<noteq> NaN \<Longrightarrow> fadd a (Fin m) \<noteq> NaN"
  by (cases a) simp_all

lemma fsub_not_NaN: "a \<noteq> NaN \<Longrightarrow> fsub a (Fin m) \<noteq> NaN"
  by (cases a) (simp_all add: fsub_def)

lemma fadd_Fin_not_NaN: "b \<noteq> NaN \<Longrightarrow> fadd (Fin a) b \<noteq> NaN"
  by (cases b) simp_all

text \<open>Adding a margin that is not negative moves a coordinate outwards, or leaves it.\<close>

lemma fsub_margin_le:
  assumes "wf32 u" "u \<noteq> NaN" "0 \<le> m"
  shows "fle (fsub u (Fin m)) u"
proof (cases u)
  case (Fin a)
  have "fle (round32 (a - m)) (round32 a)" using assms(3) by (intro round32_mono) simp
  moreover have "round32 a = Fin a" using assms(1) Fin by (simp add: round32_exact)
  ultimately show ?thesis by (simp add: Fin fsub_Fin)
qed (use assms in \<open>simp_all add: fsub_def\<close>)

lemma fadd_margin_ge:
  assumes "wf32 u" "u \<noteq> NaN" "0 \<le> m"
  shows "fle u (fadd u (Fin m))"
proof (cases u)
  case (Fin a)
  have "fle (round32 a) (round32 (a + m))" using assms(3) by (intro round32_mono) simp
  moreover have "round32 a = Fin a" using assms(1) Fin by (simp add: round32_exact)
  ultimately show ?thesis by (simp add: Fin)
qed (use assms in simp_all)

lemma expand_contains:
  assumes "wf32 (llx r)" "wf32 (lly r)" "wf32 (urx r)" "wf32 (ury r)"
    and "llx r \<noteq> NaN" "lly r \<noteq> NaN" "urx r \<noteq> NaN" "ury r \<noteq> NaN" and "0 \<le> m"
  shows "contains (expand r (Fin m)) r"
  using assms by (simp add: contains_def expand_def mkRect_def fsub_margin_le fadd_margin_ge)

text \<open>The conversion of an \<^verbatim>\<open>int\<close> is finite, and exact below \<open>2 ^ 24\<close>.\<close>

lemma ofInt32_exact: "\<bar>n\<bar> < 2 ^ 24 \<Longrightarrow> ofInt32 n = Fin (of_int n)"
proof -
  assume "\<bar>n\<bar> < 2 ^ 24"
  then have "\<bar>of_int n :: real\<bar> < of_int (2 ^ 24)" by (simp only: of_int_abs[symmetric] of_int_less_iff)
  then show ?thesis unfolding ofInt32_def by (intro round32_Ints) simp_all
qed

lemma round32_1 [simp]: "round32 1 = Fin 1"
  using round32_Ints[of 1] by simp

lemma round32_0 [simp]: "round32 0 = Fin 0"
  using round32_Ints[of 0] by simp

lemma ofInt32_finite:
  assumes "- (2 ^ 63) \<le> n" "n < 2 ^ 63"
  shows "\<exists>v. ofInt32 n = Fin v \<and> (0 \<le> n \<longrightarrow> 0 \<le> v) \<and> (1 \<le> n \<longrightarrow> 1 \<le> v)"
proof -
  have "\<bar>n\<bar> \<le> 2 ^ 63" using assms by simp
  then have "\<bar>of_int n :: real\<bar> \<le> of_int (2 ^ 63)" by (simp only: of_int_abs[symmetric] of_int_le_iff)
  then have "\<bar>of_int n :: real\<bar> \<le> 2 ^ 127" by simp
  then obtain v where v: "round32 (of_int n) = Fin v" using round32_finite by blast
  have "0 \<le> v" if "0 \<le> n"
  proof -
    have "fle (round32 0) (round32 (of_int n))" using that by (intro round32_mono) simp
    then show ?thesis by (simp add: v)
  qed
  moreover have "1 \<le> v" if "1 \<le> n"
  proof -
    have "fle (round32 1) (round32 (of_int n))" using that by (intro round32_mono) simp
    then show ?thesis by (simp add: v)
  qed
  ultimately show ?thesis using v by (simp add: ofInt32_def)
qed

text \<open>A quotient by a number that is at least one is finite.\<close>

lemma round32_shrink:
  assumes "isF32 w" "\<bar>x\<bar> \<le> \<bar>w\<bar>"
  shows "\<exists>v. round32 x = Fin v"
proof -
  have n: "nearest32 \<bar>w\<bar> = \<bar>w\<bar>" using assms(1) by (intro isF32_nearest) (simp add: isF32_abs)
  have "nearest32 x \<le> nearest32 \<bar>w\<bar>" using assms(2) by (intro nearest32_mono) simp
  then have u: "nearest32 x \<le> \<bar>w\<bar>" unfolding n .
  have "nearest32 (- \<bar>w\<bar>) \<le> nearest32 x" using assms(2) by (intro nearest32_mono) simp
  then have l: "- \<bar>w\<bar> \<le> nearest32 x" unfolding nearest32_neg n .
  have "\<bar>w\<bar> < 2 ^ 128" using assms(1) by (simp add: isF32_def)
  with u l have "\<bar>nearest32 x\<bar> < 2 ^ 128" by (simp only: abs_less_iff) linarith
  then show ?thesis by (simp add: round32_def Let_def)
qed

lemma fdiv_finite:
  assumes "isF32 w" "1 \<le> h"
  shows "\<exists>v. fdiv (Fin w) (Fin h) = Fin v"
proof -
  have "\<bar>w / h\<bar> \<le> \<bar>w\<bar>"
  proof -
    have "\<bar>w / h\<bar> = \<bar>w\<bar> / h" using assms(2) by simp
    also have "\<dots> \<le> \<bar>w\<bar> / 1" using assms(2) by (intro divide_left_mono) simp_all
    finally show ?thesis by simp
  qed
  from round32_shrink[OF assms(1) this] show ?thesis using assms(2) by simp
qed

lemma ceilInt_Some: "ceilInt q = Some n \<Longrightarrow> \<exists>a. q = Fin a \<and> n = \<lceil>a\<rceil> \<and> - (2 ^ 63) \<le> n \<and> n < 2 ^ 63"
  by (cases q) (auto simp: ceilInt_def split: if_splits)

lemma fdiv_Fin_left: "fdiv w t = Fin q \<Longrightarrow> \<exists>a. w = Fin a"
  by (cases w; cases t) (simp_all split: if_splits)

text \<open>The rules that evaluate a rounding.\<close>

lemmas f32_eval = round32_def nearest32_def quantum_def nbits.simps roundEven_def Let_def

subsection \<open>The two loops of \<^verbatim>\<open>cutPageToTiles\<close>\<close>

lemma upt_nat_step:
  assumes "0 \<le> x" "x < h"
  shows "[nat x..<nat h] = nat x # [nat (x + 1)..<nat h]"
proof -
  have "nat x < nat h" using assms by simp
  moreover have "nat (x + 1) = Suc (nat x)" using assms by simp
  ultimately show ?thesis by (simp add: upt_conv_Cons)
qed

lemma xLoop_eq:
  "0 \<le> x \<Longrightarrow>
   xLoop p tileW tileH bm tm hTiles y0 tgy x x acc =
   acc @ map (\<lambda>i. newTile p tileW tileH bm tm
                    (fadd (llx (trimBox p)) (fmul (ofInt32 (int i)) tileW)) y0 (int i) tgy)
             [nat x..<nat hTiles]"
proof (induction "nat (hTiles - x)" arbitrary: x acc)
  case 0
  then have "\<not> x < hTiles" by simp
  then show ?case by (subst xLoop.simps) simp
next
  case (Suc n)
  then have lt: "x < hTiles" by linarith
  have n: "n = nat (hTiles - (x + 1))" using Suc.hyps(2) by linarith
  have nx: "0 \<le> x + 1" using Suc.prems by simp
  obtain k where k: "x = int k" using Suc.prems by (rule nonneg_int_cases)
  have "xLoop p tileW tileH bm tm hTiles y0 tgy x x acc =
        xLoop p tileW tileH bm tm hTiles y0 tgy (x + 1) (x + 1)
          (acc @ [newTile p tileW tileH bm tm (fadd (llx (trimBox p)) (fmul (ofInt32 x) tileW)) y0 x tgy])"
    using lt by (subst xLoop.simps) simp
  also have "\<dots> = (acc @ [newTile p tileW tileH bm tm (fadd (llx (trimBox p)) (fmul (ofInt32 x) tileW)) y0 x tgy]) @
        map (\<lambda>i. newTile p tileW tileH bm tm
                    (fadd (llx (trimBox p)) (fmul (ofInt32 (int i)) tileW)) y0 (int i) tgy)
             [nat (x + 1)..<nat hTiles]"
    by (rule Suc.hyps(1)[OF n nx])
  also have "\<dots> = acc @ map (\<lambda>i. newTile p tileW tileH bm tm
                    (fadd (llx (trimBox p)) (fmul (ofInt32 (int i)) tileW)) y0 (int i) tgy)
             [nat x..<nat hTiles]"
    unfolding upt_nat_step[OF Suc.prems lt] by (simp add: k)
  finally show ?case .
qed

lemma yLoop_eq:
  "0 \<le> y \<Longrightarrow>
   yLoop p tileW tileH bm tm hTiles vTiles y y acc =
   acc @ concat (map (\<lambda>j. map (\<lambda>i. tileOf p tileW tileH bm tm i j) [0..<nat hTiles])
             [nat y..<nat vTiles])"
proof (induction "nat (vTiles - y)" arbitrary: y acc)
  case 0
  then have "\<not> y < vTiles" by simp
  then show ?case by (subst yLoop.simps) simp
next
  case (Suc n)
  then have lt: "y < vTiles" by linarith
  have n: "n = nat (vTiles - (y + 1))" using Suc.hyps(2) by linarith
  have ny: "0 \<le> y + 1" using Suc.prems by simp
  obtain k where k: "y = int k" using Suc.prems by (rule nonneg_int_cases)
  have row: "xLoop p tileW tileH bm tm hTiles (fadd (lly (trimBox p)) (fmul (ofInt32 y) tileH)) y 0 0 acc =
        acc @ map (\<lambda>i. tileOf p tileW tileH bm tm i (nat y)) [0..<nat hTiles]"
    using xLoop_eq[of 0 p tileW tileH bm tm hTiles "fadd (lly (trimBox p)) (fmul (ofInt32 y) tileH)" y acc]
    by (simp add: tileOf_def k)
  have "yLoop p tileW tileH bm tm hTiles vTiles y y acc =
        yLoop p tileW tileH bm tm hTiles vTiles (y + 1) (y + 1)
          (xLoop p tileW tileH bm tm hTiles (fadd (lly (trimBox p)) (fmul (ofInt32 y) tileH)) y 0 0 acc)"
    using lt by (subst yLoop.simps) simp
  also have "\<dots> = (acc @ map (\<lambda>i. tileOf p tileW tileH bm tm i (nat y)) [0..<nat hTiles]) @
        concat (map (\<lambda>j. map (\<lambda>i. tileOf p tileW tileH bm tm i j) [0..<nat hTiles])
             [nat (y + 1)..<nat vTiles])"
    unfolding row by (rule Suc.hyps(1)[OF n ny])
  also have "\<dots> = acc @ concat (map (\<lambda>j. map (\<lambda>i. tileOf p tileW tileH bm tm i j) [0..<nat hTiles])
             [nat y..<nat vTiles])"
    unfolding upt_nat_step[OF Suc.prems lt] by simp
  finally show ?case .
qed

lemma grid_length: "length (grid H V f) = V * H"
  unfolding grid_def by (induction V) simp_all

lemma grid_Suc: "grid H (Suc V) f = grid H V f @ map (\<lambda>i. f i V) [0..<H]"
  by (simp add: grid_def)

lemma grid_nth:
  assumes "i < H" "j < V"
  shows "grid H V f ! (j * H + i) = f i j"
  using assms(2)
proof (induction V)
  case 0
  then show ?case by simp
next
  case (Suc V)
  show ?case
  proof (cases "j < V")
    case True
    have "j * H + i < j * H + H" using assms(1) by simp
    also have "\<dots> = Suc j * H" by simp
    also have "\<dots> \<le> V * H" using True by (intro mult_le_mono1) simp
    finally have "j * H + i < V * H" .
    then show ?thesis using Suc.IH[OF True] by (simp add: grid_Suc nth_append grid_length)
  next
    case False
    then have jV: "j = V" using Suc.prems by simp
    show ?thesis using assms(1) by (simp add: jV grid_Suc nth_append grid_length)
  qed
qed

lemma grid_set: "set (grid H V f) = {f i j | i j. i < H \<and> j < V}"
  unfolding grid_def by force

lemma cutPageToTiles_grid:
  assumes "countH p tileW = Some H" "countV p tileH = Some V"
  shows "cutPageToTiles p tileW tileH bm tm =
     Some (grid (nat H) (nat V) (tileOf p (sizeW p H) (sizeH p V) bm tm))"
  using assms
  by (simp add: cutPageToTiles_def Let_def yLoop_eq grid_def countH_def countV_def
      sizeW_def sizeH_def trimWidth_def trimHeight_def)

lemma cutPageToTiles_None:
  "countH p tileW = None \<or> countV p tileH = None \<Longrightarrow> cutPageToTiles p tileW tileH bm tm = None"
  by (auto simp: cutPageToTiles_def Let_def countH_def countV_def trimWidth_def trimHeight_def
      split: option.splits)

lemma tileOf_boxes:
  "trimBox (tileOf p w h bm tm i j) =
     mkRect (fadd (llx (trimBox p)) (fmul (ofInt32 (int i)) w))
            (fadd (lly (trimBox p)) (fmul (ofInt32 (int j)) h))
            (fadd (fadd (llx (trimBox p)) (fmul (ofInt32 (int i)) w)) w)
            (fadd (fadd (lly (trimBox p)) (fmul (ofInt32 (int j)) h)) h)"
  "bleedBox (tileOf p w h bm tm i j) = expand (trimBox (tileOf p w h bm tm i j)) tm"
  "mediaBox (tileOf p w h bm tm i j) = expand (bleedBox (tileOf p w h bm tm i j)) bm"
  "cropBox (tileOf p w h bm tm i j) = mediaBox (tileOf p w h bm tm i j)"
  "tileX (tileOf p w h bm tm i j) = int i"
  "tileY (tileOf p w h bm tm i j) = int j"
  "contentIds (tileOf p w h bm tm i j) = contentIds p"
  "number (tileOf p w h bm tm i j) = number p"
  "raw (tileOf p w h bm tm i j) = raw p"
  by (simp_all add: tileOf_def newTile_def Let_def mkRect_def expand_def)

subsection \<open>The rounding error of the grid\<close>

text \<open>
  A result of size at most \<open>8 * M\<close>, for a scale \<open>M\<close> between 1 and \<open>2 ^ 124\<close>, is finite
  and has an error of at most \<open>M / 2 ^ 20\<close>.
\<close>

lemma round32_scaled:
  assumes "1 \<le> M" "M \<le> 2 ^ 124" "\<bar>z\<bar> \<le> 8 * M"
  obtains y where "round32 z = Fin y" "\<bar>y - z\<bar> \<le> \<bar>z\<bar> / 2 ^ 24 + 1 / 2 ^ 150"
    "\<bar>y - z\<bar> \<le> M / 2 ^ 20"
proof -
  have "\<bar>z\<bar> \<le> 8 * 2 ^ 124" using assms(2,3) by linarith
  then have "\<bar>z\<bar> \<le> 2 ^ 127" by simp
  then obtain y where y: "round32 z = Fin y" using round32_finite by blast
  from round32_err[OF y] have e: "\<bar>y - z\<bar> \<le> \<bar>z\<bar> / 2 ^ 24 + 1 / 2 ^ 150" .
  have "\<bar>z\<bar> / 2 ^ 24 \<le> 8 * M / 2 ^ 24" using assms(3) by (intro divide_right_mono) simp_all
  moreover have "(1::real) / 2 ^ 150 \<le> M / 2 ^ 150" using assms(1) by (intro divide_right_mono) simp_all
  moreover have "8 * M / 2 ^ 24 + M / 2 ^ 150 \<le> M / 2 ^ 20" using assms(1) by simp
  ultimately have "\<bar>y - z\<bar> \<le> M / 2 ^ 20" using e by linarith
  with y e show ?thesis using that by blast
qed

lemma grid_arith:
  fixes a c M Wv w h x :: real
  assumes M: "1 \<le> M" "\<bar>a\<bar> \<le> M" "\<bar>c\<bar> \<le> M"
    and e1: "\<bar>Wv - (c - a)\<bar> \<le> M / 2 ^ 20"
    and h: "1 \<le> h" "h \<le> 2 ^ 24" and x: "0 \<le> x" "x \<le> h"
    and e2: "\<bar>w - Wv / h\<bar> \<le> \<bar>Wv / h\<bar> / 2 ^ 24 + 1 / 2 ^ 150"
  shows "\<bar>x * w - x * (c - a) / h\<bar> \<le> 2 * (M / 2 ^ 20)" and "\<bar>x * w\<bar> \<le> 3 * M"
proof -
  have hpos: "0 < h" using h(1) by simp
  define r where "r = x / h"
  have r0: "0 \<le> r" using x(1) hpos by (simp add: r_def)
  have r1: "r \<le> 1" using x(2) hpos by (simp add: r_def)
  have D: "\<bar>c - a\<bar> \<le> 2 * M" using M by linarith
  have u: "M / 2 ^ 20 \<le> M" using M(1) by simp
  have Wb: "\<bar>Wv\<bar> \<le> 3 * M" using e1 D u by linarith
  have t1: "\<bar>x * (w - Wv / h)\<bar> \<le> M / 2 ^ 20"
  proof -
    have "\<bar>x * (w - Wv / h)\<bar> = x * \<bar>w - Wv / h\<bar>" using x(1) by (simp add: abs_mult)
    also have "\<dots> \<le> x * (\<bar>Wv / h\<bar> / 2 ^ 24 + 1 / 2 ^ 150)" using e2 x(1) by (intro mult_left_mono)
    also have "\<dots> = r * \<bar>Wv\<bar> / 2 ^ 24 + x / 2 ^ 150"
      using hpos by (simp add: r_def abs_divide field_simps)
    finally have a1: "\<bar>x * (w - Wv / h)\<bar> \<le> r * \<bar>Wv\<bar> / 2 ^ 24 + x / 2 ^ 150" .
    have "r * \<bar>Wv\<bar> \<le> 1 * \<bar>Wv\<bar>" using r1 by (intro mult_right_mono) simp_all
    then have "r * \<bar>Wv\<bar> \<le> 3 * M" using Wb by simp
    then have a2: "r * \<bar>Wv\<bar> / 2 ^ 24 \<le> 3 * M / 2 ^ 24" by (intro divide_right_mono) simp_all
    have "x \<le> 2 ^ 24" using x(2) h(2) by linarith
    then have "x / 2 ^ 150 \<le> 2 ^ 24 / 2 ^ 150" by (intro divide_right_mono) simp_all
    also have "\<dots> = (1::real) / 2 ^ 126" by simp
    also have "\<dots> \<le> M / 2 ^ 126" using M(1) by (intro divide_right_mono) simp_all
    finally have a3: "x / 2 ^ 150 \<le> M / 2 ^ 126" .
    have "3 * M / 2 ^ 24 + M / 2 ^ 126 \<le> M / 2 ^ 20" using M(1) by simp
    with a1 a2 a3 show ?thesis by linarith
  qed
  have t2: "\<bar>r * (Wv - (c - a))\<bar> \<le> M / 2 ^ 20"
  proof -
    have "\<bar>r * (Wv - (c - a))\<bar> = r * \<bar>Wv - (c - a)\<bar>" using r0 by (simp add: abs_mult)
    also have "\<dots> \<le> 1 * \<bar>Wv - (c - a)\<bar>" using r1 by (intro mult_right_mono) simp_all
    finally show ?thesis using e1 by simp
  qed
  have eq: "x * w - x * (c - a) / h = x * (w - Wv / h) + r * (Wv - (c - a))"
    using hpos by (simp add: r_def field_simps)
  have "\<bar>x * (w - Wv / h) + r * (Wv - (c - a))\<bar> \<le> \<bar>x * (w - Wv / h)\<bar> + \<bar>r * (Wv - (c - a))\<bar>"
    by (rule abs_triangle_ineq)
  also have "\<dots> \<le> M / 2 ^ 20 + M / 2 ^ 20" using t1 t2 by (rule add_mono)
  finally show A: "\<bar>x * w - x * (c - a) / h\<bar> \<le> 2 * (M / 2 ^ 20)"
    unfolding eq by simp
  have "\<bar>x * (c - a) / h\<bar> = r * \<bar>c - a\<bar>" using r0 hpos x(1) by (simp add: r_def abs_mult abs_divide)
  also have "\<dots> \<le> 1 * \<bar>c - a\<bar>" using r1 by (intro mult_right_mono) simp_all
  finally have C: "\<bar>x * (c - a) / h\<bar> \<le> 2 * M" using D by simp
  have v: "2 * (M / 2 ^ 20) \<le> M" using M(1) by simp
  define P where "P = x * w"
  define Q where "Q = x * (c - a) / h"
  have "\<bar>P - Q\<bar> \<le> 2 * (M / 2 ^ 20)" "\<bar>Q\<bar> \<le> 2 * M" using A C by (simp_all add: P_def Q_def)
  then have "\<bar>P\<bar> \<le> 3 * M" using v by linarith
  then show "\<bar>x * w\<bar> \<le> 3 * M" by (simp add: P_def)
qed

lemma scale_bounds: "1 \<le> scale a c" "\<bar>a\<bar> \<le> scale a c" "\<bar>c\<bar> \<le> scale a c"
  by (simp_all add: scale_def)

lemma gridLine_bound:
  assumes "1 \<le> M" "\<bar>a\<bar> \<le> M" "\<bar>c\<bar> \<le> M" "0 \<le> k" "k \<le> n" "1 \<le> n"
  shows "\<bar>gridLine a c n k\<bar> \<le> 3 * M"
proof -
  define r :: real where "r = of_int k / of_int n"
  have r0: "0 \<le> r" using assms(4,6) by (simp add: r_def)
  have r1: "r \<le> 1" using assms(5,6) by (simp add: r_def)
  have "gridLine a c n k = a + r * (c - a)" by (simp add: gridLine_def r_def)
  moreover have "\<bar>r * (c - a)\<bar> \<le> 2 * M"
  proof -
    have D: "\<bar>c - a\<bar> \<le> 2 * M" using assms(2,3) by linarith
    have "\<bar>r * (c - a)\<bar> = r * \<bar>c - a\<bar>" using r0 by (simp add: abs_mult)
    also have "\<dots> \<le> 1 * \<bar>c - a\<bar>" using r1 by (intro mult_right_mono) simp_all
    finally show ?thesis using D by simp
  qed
  moreover define Q where "Q = r * (c - a)"
  ultimately have "gridLine a c n k = a + Q" "\<bar>Q\<bar> \<le> 2 * M" by simp_all
  then show ?thesis using assms(2) by linarith
qed

text \<open>
  The left and the right edge of the tile in column \<open>x\<close>, for a trim box from \<open>a\<close> to
  \<open>c\<close> that is cut into \<open>H\<close> columns.
\<close>

lemma tile_edges:
  assumes fa: "isF32 a" and fc: "isF32 c" and M: "scale a c \<le> 2 ^ 124"
    and H: "1 \<le> H" "H < 2 ^ 24" and x: "0 \<le> x" "x < H"
  shows "\<exists>w l r. fdiv (fsub (Fin c) (Fin a)) (ofInt32 H) = Fin w
     \<and> fadd (Fin a) (fmul (ofInt32 x) (Fin w)) = Fin l \<and> fadd (Fin l) (Fin w) = Fin r
     \<and> \<bar>l - gridLine a c H x\<bar> \<le> scale a c / 2 ^ 18
     \<and> \<bar>r - gridLine a c H (x + 1)\<bar> \<le> scale a c / 2 ^ 17
     \<and> \<bar>(r - l) - (c - a) / of_int H\<bar> \<le> scale a c / 2 ^ 18
     \<and> (x = 0 \<longrightarrow> l = a)"
proof -
  define S where "S = scale a c"
  define h :: real where "h = of_int H"
  define xr :: real where "xr = of_int x"
  have S: "1 \<le> S" "\<bar>a\<bar> \<le> S" "\<bar>c\<bar> \<le> S" by (simp_all add: S_def scale_def)
  have S124: "S \<le> 2 ^ 124" using M by (simp add: S_def)
  have u: "S / 2 ^ 20 \<le> S" using S(1) by simp
  have h1: "1 \<le> h" using H(1) by (simp add: h_def)
  have h24: "h \<le> 2 ^ 24"
  proof -
    have "H \<le> 2 ^ 24" using H(2) by simp
    then have "(of_int H :: real) \<le> of_int (2 ^ 24)" by (simp only: of_int_le_iff)
    then show ?thesis by (simp add: h_def)
  qed
  have x0: "0 \<le> xr" using x(1) by (simp add: xr_def)
  have xh: "xr \<le> h" using x(2) by (simp add: xr_def h_def)
  have x1h: "xr + 1 \<le> h"
  proof -
    have "x + 1 \<le> H" using x(2) by simp
    then have "(of_int (x + 1) :: real) \<le> of_int H" by (simp only: of_int_le_iff)
    then show ?thesis by (simp add: xr_def h_def)
  qed
  have iH: "ofInt32 H = Fin h" unfolding h_def using H by (intro ofInt32_exact) simp
  have ix: "ofInt32 x = Fin xr" unfolding xr_def using x H(2) by (intro ofInt32_exact) simp
  have D: "\<bar>c - a\<bar> \<le> 8 * S" using S by linarith
  from round32_scaled[OF S(1) S124 D] obtain Wv where
    W: "round32 (c - a) = Fin Wv" and e1: "\<bar>Wv - (c - a)\<bar> \<le> S / 2 ^ 20" by blast
  have Wb: "\<bar>Wv\<bar> \<le> 3 * S" using e1 S u by linarith
  have "\<bar>Wv / h\<bar> \<le> \<bar>Wv\<bar>"
  proof -
    have "\<bar>Wv / h\<bar> = \<bar>Wv\<bar> / h" using h1 by simp
    also have "\<dots> \<le> \<bar>Wv\<bar> / 1" using h1 by (intro divide_left_mono) simp_all
    finally show ?thesis by simp
  qed
  then have "\<bar>Wv / h\<bar> \<le> 8 * S" using Wb S(1) by linarith
  from round32_scaled[OF S(1) S124 this] obtain w where
    w: "round32 (Wv / h) = Fin w" and e2: "\<bar>w - Wv / h\<bar> \<le> \<bar>Wv / h\<bar> / 2 ^ 24 + 1 / 2 ^ 150"
    by blast
  have tw: "fdiv (fsub (Fin c) (Fin a)) (ofInt32 H) = Fin w"
    using h1 by (simp add: fsub_Fin W iH w)
  note ga = grid_arith[OF S e1 h1 h24 _ _ e2]
  define xw where "xw = xr * w"
  define xd where "xd = xr * (c - a) / h"
  define d where "d = (c - a) / h"
  from ga[OF x0 xh] have A: "\<bar>xw - xd\<bar> \<le> 2 * (S / 2 ^ 20)"
    and B: "\<bar>xw\<bar> \<le> 3 * S" by (simp_all add: xw_def xd_def)
  from ga[of 1] h1 have A1: "\<bar>w - d\<bar> \<le> 2 * (S / 2 ^ 20)" and B1: "\<bar>w\<bar> \<le> 3 * S"
    by (simp_all add: d_def)
  have "\<bar>xw\<bar> \<le> 8 * S" using B S(1) by linarith
  from round32_scaled[OF S(1) S124 this] obtain p where
    p: "round32 xw = Fin p" and e4: "\<bar>p - xw\<bar> \<le> S / 2 ^ 20" by blast
  have "\<bar>a + p\<bar> \<le> 8 * S" using e4 B S u by linarith
  from round32_scaled[OF S(1) S124 this] obtain l where
    l: "round32 (a + p) = Fin l" and e5: "\<bar>l - (a + p)\<bar> \<le> S / 2 ^ 20" by blast
  have L: "fadd (Fin a) (fmul (ofInt32 x) (Fin w)) = Fin l" by (simp add: ix p[unfolded xw_def] l)
  have g: "gridLine a c H x = a + xd" by (simp add: gridLine_def xr_def h_def xd_def)
  have g1: "gridLine a c H (x + 1) = a + xd + d"
    by (simp add: gridLine_def xr_def h_def xd_def d_def add_divide_distrib[symmetric] algebra_simps)
  have el: "\<bar>l - gridLine a c H x\<bar> \<le> 4 * (S / 2 ^ 20)" unfolding g using e5 e4 A by linarith
  have "\<bar>gridLine a c H x\<bar> \<le> 3 * S" using S x H by (intro gridLine_bound) simp_all
  moreover have "4 * (S / 2 ^ 20) \<le> S" using S(1) by simp
  ultimately have "\<bar>l + w\<bar> \<le> 8 * S" using el B1 S(1) by linarith
  from round32_scaled[OF S(1) S124 this] obtain r where
    r: "round32 (l + w) = Fin r" and e6: "\<bar>r - (l + w)\<bar> \<le> S / 2 ^ 20" by blast
  have R: "fadd (Fin l) (Fin w) = Fin r" by (simp add: r)
  have er: "\<bar>r - gridLine a c H (x + 1)\<bar> \<le> 7 * (S / 2 ^ 20)"
    unfolding g1 using e6 el[unfolded g] A1 by linarith
  have ew: "\<bar>(r - l) - d\<bar> \<le> 3 * (S / 2 ^ 20)" using e6 A1 by linarith
  have z: "l = a" if "x = 0"
  proof -
    have "xw = 0" using that by (simp add: xr_def xw_def)
    then have "p = 0" using p by simp
    then have "round32 a = Fin l" using l by simp
    then show ?thesis using fa by (simp add: round32_exact)
  qed
  have c1: "4 * (S / 2 ^ 20) = S / 2 ^ 18" by simp
  have c2: "7 * (S / 2 ^ 20) \<le> S / 2 ^ 17" using S(1) by simp
  have c3: "3 * (S / 2 ^ 20) \<le> S / 2 ^ 18" using S(1) by simp
  have el': "\<bar>l - gridLine a c H x\<bar> \<le> scale a c / 2 ^ 18" using el c1 by (simp add: S_def)
  have er': "\<bar>r - gridLine a c H (x + 1)\<bar> \<le> scale a c / 2 ^ 17" using er c2 unfolding S_def by linarith
  have ew': "\<bar>(r - l) - (c - a) / of_int H\<bar> \<le> scale a c / 2 ^ 18"
    using ew c3 unfolding S_def d_def h_def by linarith
  show ?thesis using tw L R el' er' ew' z by blast
qed

subsection \<open>The tiles of a page\<close>

lemma margins32: "bleedM32 = Fin 60" "trimM32 = Fin 12"
  by (simp_all add: bleedM32_def trimM32_def bleedMargin_def trimMargin_def ptsInInch_def round32_Ints)

lemma a4_targets: "a4W = Fin (7393699 / 16384)" "a4H = Fin (5717113 / 8192)"
  by (simp_all add: a4W_def a4H_def tileTarget_def bleedMargin_def trimMargin_def ptsInInch_def
      mmInInch_def fsub_def f32_eval)

lemma tile_in_grid:
  assumes "cutPageToTiles p tileW tileH bm tm = Some ts" "t \<in> set ts"
  obtains H V i j where "countH p tileW = Some H" "countV p tileH = Some V"
    "i < nat H" "j < nat V" "t = tileOf p (sizeW p H) (sizeH p V) bm tm i j"
proof -
  from assms(1) obtain H V where c: "countH p tileW = Some H" "countV p tileH = Some V"
    using cutPageToTiles_None[of p tileW tileH bm tm] by (cases "countH p tileW"; cases "countV p tileH") auto
  from cutPageToTiles_grid[OF c, of bm tm] assms
  have "t \<in> set (grid (nat H) (nat V) (tileOf p (sizeW p H) (sizeH p V) bm tm))" by simp
  then obtain i j where "i < nat H" "j < nat V" "t = tileOf p (sizeW p H) (sizeH p V) bm tm i j"
    unfolding grid_set by blast
  with c show ?thesis using that by blast
qed

text \<open>The size of the tiles is finite whenever there is a tile, and no coordinate of a trim box is a NaN.\<close>

lemma size_finite:
  assumes "ceilInt (fdiv W T) = Some H" "1 \<le> H" "wf32 W"
  shows "\<exists>v. fdiv W (ofInt32 H) = Fin v"
proof -
  from ceilInt_Some[OF assms(1)] obtain q where q: "fdiv W T = Fin q" and r: "- (2 ^ 63) \<le> H" "H < 2 ^ 63"
    by blast
  from fdiv_Fin_left[OF q] obtain w where w: "W = Fin w" by blast
  from ofInt32_finite[OF r] assms(2) obtain h where h: "ofInt32 H = Fin h" "1 \<le> h" by blast
  have "isF32 w" using assms(3) w by simp
  from fdiv_finite[OF this h(2)] show ?thesis by (simp add: w h(1))
qed

lemma edge_not_NaN:
  assumes "ceilInt (fdiv W T) = Some H" "wf32 W" "i < nat H"
  shows "fadd (Fin a) (fmul (ofInt32 (int i)) (fdiv W (ofInt32 H))) \<noteq> NaN"
    and "fadd (fadd (Fin a) (fmul (ofInt32 (int i)) (fdiv W (ofInt32 H)))) (fdiv W (ofInt32 H)) \<noteq> NaN"
proof -
  have H1: "1 \<le> H" using assms(3) by simp
  from size_finite[OF assms(1) H1 assms(2)] obtain v where v: "fdiv W (ofInt32 H) = Fin v" by blast
  from ceilInt_Some[OF assms(1)] have "H < 2 ^ 63" by blast
  then have "- (2 ^ 63) \<le> int i" "int i < 2 ^ 63" using assms(3) by simp_all
  from ofInt32_finite[OF this] obtain xi where xi: "ofInt32 (int i) = Fin xi" by blast
  have m: "fmul (ofInt32 (int i)) (fdiv W (ofInt32 H)) \<noteq> NaN" by (simp add: v xi)
  then show 1: "fadd (Fin a) (fmul (ofInt32 (int i)) (fdiv W (ofInt32 H))) \<noteq> NaN"
    by (rule fadd_Fin_not_NaN)
  then show "fadd (fadd (Fin a) (fmul (ofInt32 (int i)) (fdiv W (ofInt32 H)))) (fdiv W (ofInt32 H)) \<noteq> NaN"
    unfolding v by (rule fadd_not_NaN)
qed

lemma tile_nesting:
  assumes c: "countH p tileW = Some H" "countV p tileH = Some V" and i: "i < nat H" and j: "j < nat V"
    and f: "isFin (llx (trimBox p))" "isFin (lly (trimBox p))" and m: "0 \<le> bm" "0 \<le> tm"
  shows "contains (mediaBox (tileOf p (sizeW p H) (sizeH p V) (Fin bm) (Fin tm) i j))
                  (bleedBox (tileOf p (sizeW p H) (sizeH p V) (Fin bm) (Fin tm) i j))"
    and "contains (bleedBox (tileOf p (sizeW p H) (sizeH p V) (Fin bm) (Fin tm) i j))
                  (trimBox (tileOf p (sizeW p H) (sizeH p V) (Fin bm) (Fin tm) i j))"
proof -
  let ?t = "tileOf p (sizeW p H) (sizeH p V) (Fin bm) (Fin tm) i j"
  obtain a where a: "llx (trimBox p) = Fin a" using f(1) by (cases "llx (trimBox p)") simp_all
  obtain b where b: "lly (trimBox p) = Fin b" using f(2) by (cases "lly (trimBox p)") simp_all
  have wW: "wf32 (trimWidth p)" "wf32 (trimHeight p)" by (simp_all add: trimWidth_def trimHeight_def)
  note ex = edge_not_NaN[OF c(1)[unfolded countH_def] wW(1) i, of a, folded sizeW_def]
  note ey = edge_not_NaN[OF c(2)[unfolded countV_def] wW(2) j, of b, folded sizeH_def]
  have n: "llx (trimBox ?t) \<noteq> NaN" "lly (trimBox ?t) \<noteq> NaN" "urx (trimBox ?t) \<noteq> NaN"
    "ury (trimBox ?t) \<noteq> NaN"
    using ex ey by (simp_all add: tileOf_boxes mkRect_def a b)
  have w: "wf32 (llx (trimBox ?t))" "wf32 (lly (trimBox ?t))" "wf32 (urx (trimBox ?t))"
    "wf32 (ury (trimBox ?t))"
    by (simp_all add: tileOf_boxes mkRect_def)
  show "contains (bleedBox ?t) (trimBox ?t)"
    unfolding tileOf_boxes(2) using w n m(2) by (rule expand_contains)
  have n': "llx (bleedBox ?t) \<noteq> NaN" "lly (bleedBox ?t) \<noteq> NaN" "urx (bleedBox ?t) \<noteq> NaN"
    "ury (bleedBox ?t) \<noteq> NaN"
    using n by (simp_all add: tileOf_boxes(2) expand_def mkRect_def fsub_not_NaN fadd_not_NaN)
  have w': "wf32 (llx (bleedBox ?t))" "wf32 (lly (bleedBox ?t))" "wf32 (urx (bleedBox ?t))"
    "wf32 (ury (bleedBox ?t))"
    by (simp_all add: tileOf_boxes(2) expand_def mkRect_def)
  show "contains (mediaBox ?t) (bleedBox ?t)"
    unfolding tileOf_boxes(3) using w' n' m(1) by (rule expand_contains)
qed

text \<open>The trim box of the tile in column \<open>i\<close> and row \<open>j\<close>, against the exact grid.\<close>

lemma tile_box:
  assumes p: "trimBox p = box a b c d" and f: "isF32 a" "isF32 b" "isF32 c" "isF32 d"
    and s: "scale a c \<le> 2 ^ 124" "scale b d \<le> 2 ^ 124"
    and H: "H < 2 ^ 24" "V < 2 ^ 24" and i: "i < nat H" and j: "j < nat V"
  shows "\<exists>l lo r u. trimBox (tileOf p (sizeW p H) (sizeH p V) bm tm i j) = box l lo r u
     \<and> \<bar>l - gridLine a c H (int i)\<bar> \<le> scale a c / 2 ^ 18
     \<and> \<bar>r - gridLine a c H (int i + 1)\<bar> \<le> scale a c / 2 ^ 17
     \<and> \<bar>(r - l) - (c - a) / of_int H\<bar> \<le> scale a c / 2 ^ 18
     \<and> \<bar>lo - gridLine b d V (int j)\<bar> \<le> scale b d / 2 ^ 18
     \<and> \<bar>u - gridLine b d V (int j + 1)\<bar> \<le> scale b d / 2 ^ 17
     \<and> \<bar>(u - lo) - (d - b) / of_int V\<bar> \<le> scale b d / 2 ^ 18
     \<and> (i = 0 \<longrightarrow> l = a) \<and> (j = 0 \<longrightarrow> lo = b)"
proof -
  have q: "llx (trimBox p) = Fin a" "lly (trimBox p) = Fin b" "urx (trimBox p) = Fin c"
    "ury (trimBox p) = Fin d"
    by (simp_all add: p box_def mkRect_def)
  have xi: "0 \<le> int i" "int i < H" "1 \<le> H" using i by simp_all
  have yj: "0 \<le> int j" "int j < V" "1 \<le> V" using j by simp_all
  from tile_edges[OF f(1) f(3) s(1) xi(3) H(1) xi(1,2)] obtain w l r where
    x: "fdiv (fsub (Fin c) (Fin a)) (ofInt32 H) = Fin w"
      "fadd (Fin a) (fmul (ofInt32 (int i)) (Fin w)) = Fin l" "fadd (Fin l) (Fin w) = Fin r"
      "\<bar>l - gridLine a c H (int i)\<bar> \<le> scale a c / 2 ^ 18"
      "\<bar>r - gridLine a c H (int i + 1)\<bar> \<le> scale a c / 2 ^ 17"
      "\<bar>(r - l) - (c - a) / of_int H\<bar> \<le> scale a c / 2 ^ 18"
      "int i = 0 \<longrightarrow> l = a"
    by blast
  from tile_edges[OF f(2) f(4) s(2) yj(3) H(2) yj(1,2)] obtain h lo u where
    y: "fdiv (fsub (Fin d) (Fin b)) (ofInt32 V) = Fin h"
      "fadd (Fin b) (fmul (ofInt32 (int j)) (Fin h)) = Fin lo" "fadd (Fin lo) (Fin h) = Fin u"
      "\<bar>lo - gridLine b d V (int j)\<bar> \<le> scale b d / 2 ^ 18"
      "\<bar>u - gridLine b d V (int j + 1)\<bar> \<le> scale b d / 2 ^ 17"
      "\<bar>(u - lo) - (d - b) / of_int V\<bar> \<le> scale b d / 2 ^ 18"
      "int j = 0 \<longrightarrow> lo = b"
    by blast
  have sw: "sizeW p H = Fin w" "sizeH p V = Fin h"
    by (simp_all add: sizeW_def sizeH_def trimWidth_def trimHeight_def q x(1) y(1))
  have "trimBox (tileOf p (sizeW p H) (sizeH p V) bm tm i j) = box l lo r u"
    unfolding tileOf_boxes(1) sw q x(2,3) y(2,3) box_def ..
  moreover have "i = 0 \<longrightarrow> l = a" "j = 0 \<longrightarrow> lo = b" using x(7) y(7) by simp_all
  ultimately show ?thesis using x(4-6) y(4-6) by blast
qed

text \<open>The page of 600 by 900 points with a target of 560 by 810 points.\<close>

lemma example_counts:
  "countH examplePage (Fin 560) = Some 2" "countV examplePage (Fin 810) = Some 2"
  "sizeW examplePage 2 = Fin 300" "sizeH examplePage 2 = Fin 450"
  by (simp_all add: countH_def countV_def sizeW_def sizeH_def trimWidth_def trimHeight_def
      examplePage_def box_def mkRect_def fsub_Fin ofInt32_def ceilInt_def f32_eval)

lemmas tile_eval = tileOf_def newTile_def Let_def mkRect_def box_def fsub_Fin ofInt32_def round32_Ints

lemma example_cut:
  "cutPageToTiles examplePage (Fin 560) (Fin 810) bm tm =
     Some [tileOf examplePage (Fin 300) (Fin 450) bm tm 0 0, tileOf examplePage (Fin 300) (Fin 450) bm tm 1 0,
           tileOf examplePage (Fin 300) (Fin 450) bm tm 0 1, tileOf examplePage (Fin 300) (Fin 450) bm tm 1 1]"
  using cutPageToTiles_grid[OF example_counts(1,2), of bm tm]
  by (simp add: example_counts grid_def upt_rec)

lemma example_trims:
  "trimBox (tileOf examplePage (Fin 300) (Fin 450) bm tm 0 0) = box 0 0 300 450"
  "trimBox (tileOf examplePage (Fin 300) (Fin 450) bm tm 1 0) = box 300 0 600 450"
  "trimBox (tileOf examplePage (Fin 300) (Fin 450) bm tm 0 1) = box 0 450 300 900"
  "trimBox (tileOf examplePage (Fin 300) (Fin 450) bm tm 1 1) = box 300 450 600 900"
  by (simp_all add: tile_eval examplePage_def)

lemma isF32_Ints: "x \<in> \<int> \<Longrightarrow> \<bar>x\<bar> < 2 ^ 24 \<Longrightarrow> isF32 x"
  using round32_Ints[of x] round32_wf[of x] by (metis wf32.simps(1))

subsection \<open>Tile counts and tile sizes\<close>

lemma wide_counts:
  "countH widePage a4W = Some 5" "countV widePage a4H = Some 1"
  "\<lceil>valof (trimWidth widePage) / valof a4W\<rceil> = 6"
  by (simp_all add: countH_def countV_def trimWidth_def trimHeight_def widePage_def box_def
      mkRect_def fsub_Fin a4_targets ceilInt_def f32_eval)

text \<open>
  Claim C1. Whenever the two tile counts are defined, \<^verbatim>\<open>cutPageToTiles\<close> returns
  \<open>hTiles * vTiles\<close> tiles, where \<open>hTiles\<close> is the ceiling of the quotient of the width
  of the trim box by the target width, both the width and the quotient rounded to
  \<^verbatim>\<open>float32\<close>, and \<open>vTiles\<close> the same for the heights. The right and the upper edge of
  every trim box are its left and its lower edge plus the one tile size of the page,
  \<open>pageWidth / hTiles\<close> and \<open>pageHeight / vTiles\<close> in \<^verbatim>\<open>float32\<close>, the sums rounded. For a
  page with finite coordinates of size at most \<open>2 ^ 124\<close> and fewer than \<open>2 ^ 24\<close> columns
  and rows, the width and the height of every trim box are the exact quotients of the
  width and the height of the page's trim box by the counts, up to an error of at most
  the scale of the coordinates divided by \<open>2 ^ 18\<close>. A trim box of 600 by 900 points and
  a target of 560 by 810 points give two columns, two rows and four tiles of 300 by
  450 points.
\<close>

theorem C1_tile_counts_and_sizes:
  assumes "countH p tileW = Some H" and "countV p tileH = Some V"
  shows "\<exists>ts. cutPageToTiles p tileW tileH bleedM trimM = Some ts
     \<and> length ts = nat H * nat V
     \<and> (\<forall>t \<in> set ts. urx (trimBox t) = fadd (llx (trimBox t)) (sizeW p H)
                     \<and> ury (trimBox t) = fadd (lly (trimBox t)) (sizeH p V))
     \<and> (\<forall>a b c d. trimBox p = box a b c d \<and> isF32 a \<and> isF32 b \<and> isF32 c \<and> isF32 d
            \<and> scale a c \<le> 2 ^ 124 \<and> scale b d \<le> 2 ^ 124 \<and> H < 2 ^ 24 \<and> V < 2 ^ 24 \<longrightarrow>
          (\<forall>t \<in> set ts. \<exists>l lo r u. trimBox t = box l lo r u
              \<and> \<bar>(r - l) - (c - a) / of_int H\<bar> \<le> scale a c / 2 ^ 18
              \<and> \<bar>(u - lo) - (d - b) / of_int V\<bar> \<le> scale b d / 2 ^ 18))
     \<and> countH examplePage (Fin 560) = Some 2 \<and> countV examplePage (Fin 810) = Some 2
     \<and> map_option (map trimBox) (cutPageToTiles examplePage (Fin 560) (Fin 810) bleedM32 trimM32)
          = Some [box 0 0 300 450, box 300 0 600 450, box 0 450 300 900, box 300 450 600 900]"
proof -
  let ?ts = "grid (nat H) (nat V) (tileOf p (sizeW p H) (sizeH p V) bleedM trimM)"
  have cut: "cutPageToTiles p tileW tileH bleedM trimM = Some ?ts"
    using assms by (rule cutPageToTiles_grid)
  have len: "length ?ts = nat H * nat V" by (simp add: grid_length)
  have sz: "urx (trimBox t) = fadd (llx (trimBox t)) (sizeW p H)
          \<and> ury (trimBox t) = fadd (lly (trimBox t)) (sizeH p V)" if "t \<in> set ?ts" for t
  proof -
    from that obtain i j where "t = tileOf p (sizeW p H) (sizeH p V) bleedM trimM i j"
      unfolding grid_set by blast
    then show ?thesis by (simp add: tileOf_boxes(1) mkRect_def)
  qed
  have tol: "\<exists>l lo r u. trimBox t = box l lo r u
              \<and> \<bar>(r - l) - (c - a) / of_int H\<bar> \<le> scale a c / 2 ^ 18
              \<and> \<bar>(u - lo) - (d - b) / of_int V\<bar> \<le> scale b d / 2 ^ 18"
    if "trimBox p = box a b c d" "isF32 a" "isF32 b" "isF32 c" "isF32 d"
      "scale a c \<le> 2 ^ 124" "scale b d \<le> 2 ^ 124" "H < 2 ^ 24" "V < 2 ^ 24" "t \<in> set ?ts"
    for a b c d t
  proof -
    from that(10) obtain i j where ij: "i < nat H" "j < nat V"
      and t: "t = tileOf p (sizeW p H) (sizeH p V) bleedM trimM i j"
      unfolding grid_set by blast
    from tile_box[OF that(1-9) ij, of bleedM trimM] show ?thesis unfolding t by blast
  qed
  have ex: "map_option (map trimBox) (cutPageToTiles examplePage (Fin 560) (Fin 810) bleedM32 trimM32)
          = Some [box 0 0 300 450, box 300 0 600 450, box 0 450 300 900, box 300 450 600 900]"
    by (simp only: example_cut option.map list.map example_trims)
  have sz': "\<forall>t \<in> set ?ts. urx (trimBox t) = fadd (llx (trimBox t)) (sizeW p H)
                     \<and> ury (trimBox t) = fadd (lly (trimBox t)) (sizeH p V)"
    using sz by blast
  have tol': "\<forall>a b c d. trimBox p = box a b c d \<and> isF32 a \<and> isF32 b \<and> isF32 c \<and> isF32 d
            \<and> scale a c \<le> 2 ^ 124 \<and> scale b d \<le> 2 ^ 124 \<and> H < 2 ^ 24 \<and> V < 2 ^ 24 \<longrightarrow>
          (\<forall>t \<in> set ?ts. \<exists>l lo r u. trimBox t = box l lo r u
              \<and> \<bar>(r - l) - (c - a) / of_int H\<bar> \<le> scale a c / 2 ^ 18
              \<and> \<bar>(u - lo) - (d - b) / of_int V\<bar> \<le> scale b d / 2 ^ 18)"
    using tol by (intro allI impI ballI) (elim conjE)
  show ?thesis
    apply (rule exI[of _ ?ts])
    apply (rule conjI, rule cut)
    apply (rule conjI, rule len)
    apply (rule conjI, rule sz')
    apply (rule conjI, rule tol')
    apply (rule conjI, rule example_counts(1))
    apply (rule conjI, rule example_counts(2))
    apply (rule ex)
    done
qed

theorem C1_witness:
  "countH examplePage (Fin 560) = Some 2 \<and> countV examplePage (Fin 810) = Some 2
   \<and> (\<exists>ts. cutPageToTiles examplePage (Fin 560) (Fin 810) bleedM32 trimM32 = Some ts
         \<and> length ts = 4
         \<and> map (\<lambda>t. urx (trimBox t)) ts = map (\<lambda>t. fadd (llx (trimBox t)) (Fin 300)) ts
         \<and> map (\<lambda>t. ury (trimBox t)) ts = map (\<lambda>t. fadd (lly (trimBox t)) (Fin 450)) ts
         \<and> map trimBox ts = [box 0 0 300 450, box 300 0 600 450, box 0 450 300 900, box 300 450 600 900])"
proof -
  note C1_tile_counts_and_sizes[OF example_counts(1,2), of bleedM32 trimM32]
  then obtain ts where ts: "cutPageToTiles examplePage (Fin 560) (Fin 810) bleedM32 trimM32 = Some ts"
    and len: "length ts = nat 2 * nat 2"
    and sz: "\<forall>t \<in> set ts. urx (trimBox t) = fadd (llx (trimBox t)) (sizeW examplePage 2)
                     \<and> ury (trimBox t) = fadd (lly (trimBox t)) (sizeH examplePage 2)"
    and ex: "map_option (map trimBox) (cutPageToTiles examplePage (Fin 560) (Fin 810) bleedM32 trimM32)
          = Some [box 0 0 300 450, box 300 0 600 450, box 0 450 300 900, box 300 450 600 900]"
    by (elim exE conjE) (rule that)
  have l4: "length ts = 4" using len by simp
  have wx: "map (\<lambda>t. urx (trimBox t)) ts = map (\<lambda>t. fadd (llx (trimBox t)) (Fin 300)) ts"
    using sz by (simp add: example_counts)
  have wy: "map (\<lambda>t. ury (trimBox t)) ts = map (\<lambda>t. fadd (lly (trimBox t)) (Fin 450)) ts"
    using sz by (simp add: example_counts)
  have tb: "map trimBox ts = [box 0 0 300 450, box 300 0 600 450, box 0 450 300 900, box 300 450 600 900]"
    using ex by (simp add: ts)
  show ?thesis
    apply (rule conjI, rule example_counts(1))
    apply (rule conjI, rule example_counts(2))
    apply (rule exI[of _ ts])
    apply (rule conjI, rule ts)
    apply (rule conjI, rule l4)
    apply (rule conjI, rule wx)
    apply (rule conjI, rule wy)
    apply (rule tb)
    done
qed

theorem C1_counterexample:
  "countH widePage a4W = Some 5
   \<and> (\<exists>ts. cutPageToTiles widePage a4W a4H bleedM32 trimM32 = Some ts \<and> length ts = 5)
   \<and> \<lceil>valof (trimWidth widePage) / valof a4W\<rceil> = 6"
proof -
  have "cutPageToTiles widePage a4W a4H bleedM32 trimM32 =
      Some (grid (nat 5) (nat 1) (tileOf widePage (sizeW widePage 5) (sizeH widePage 1) bleedM32 trimM32))"
    using wide_counts(1,2) by (rule cutPageToTiles_grid)
  moreover have "length (grid (nat 5) (nat 1)
      (tileOf widePage (sizeW widePage 5) (sizeH widePage 1) bleedM32 trimM32)) = 5"
    by (simp add: grid_length)
  ultimately have "\<exists>ts. cutPageToTiles widePage a4W a4H bleedM32 trimM32 = Some ts \<and> length ts = 5"
    by simp
  then show ?thesis using wide_counts(1,3) by simp
qed

subsection \<open>The boxes of a tile\<close>

lemma far_counts:
  "countH farPage a4W = Some 2" "countV farPage a4H = Some 2"
  "sizeW farPage 2 = Fin 320" "sizeH farPage 2 = Fin 450"
  by (simp_all add: countH_def countV_def sizeW_def sizeH_def trimWidth_def trimHeight_def
      farPage_def box_def mkRect_def fsub_Fin ofInt32_def a4_targets ceilInt_def f32_eval)

lemma far_cut:
  "cutPageToTiles farPage a4W a4H bm tm =
     Some [tileOf farPage (Fin 320) (Fin 450) bm tm 0 0, tileOf farPage (Fin 320) (Fin 450) bm tm 1 0,
           tileOf farPage (Fin 320) (Fin 450) bm tm 0 1, tileOf farPage (Fin 320) (Fin 450) bm tm 1 1]"
  using cutPageToTiles_grid[OF far_counts(1,2), of bm tm]
  by (simp add: far_counts grid_def upt_rec)

lemma far_boxes:
  "llx (trimBox (tileOf farPage (Fin 320) (Fin 450) (Fin 60) (Fin 12) 0 0)) = Fin 1000000000"
  "llx (bleedBox (tileOf farPage (Fin 320) (Fin 450) (Fin 60) (Fin 12) 0 0)) = Fin 1000000000"
  "llx (mediaBox (tileOf farPage (Fin 320) (Fin 450) (Fin 60) (Fin 12) 0 0)) = Fin 999999936"
  by (simp_all add: tileOf_def newTile_def mkRect_def box_def farPage_def fsub_Fin ofInt32_def f32_eval)

lemma example_boxes:
  "trimBox (tileOf examplePage (Fin 300) (Fin 450) (Fin 60) (Fin 12) 1 1) = box 300 450 600 900"
  "bleedBox (tileOf examplePage (Fin 300) (Fin 450) (Fin 60) (Fin 12) 1 1) = box 288 438 612 912"
  "mediaBox (tileOf examplePage (Fin 300) (Fin 450) (Fin 60) (Fin 12) 1 1) = box 228 378 672 972"
  "cropBox (tileOf examplePage (Fin 300) (Fin 450) (Fin 60) (Fin 12) 1 1) = box 228 378 672 972"
  by (simp_all add: tile_eval examplePage_def)

text \<open>
  Claim C3. Every tile that \<^verbatim>\<open>cutPageToTiles\<close> returns for a page with a finite trim box
  is the tile of a column \<open>x\<close> and a row \<open>y\<close> within the counts. In the arithmetic of
  \<^verbatim>\<open>float32\<close>, where every sum and product is rounded, its trim box is
  \<open>[llx, lly, llx + tileW, lly + tileH]\<close> with \<open>llx = pageTrim.llx + x * tileW\<close> and
  \<open>lly = pageTrim.lly + y * tileH\<close>; its bleed box is the trim box with \<open>trimMargin\<close>
  subtracted from the lower left and added to the upper right coordinates; its media
  box is the bleed box with \<open>bleedMargin\<close> subtracted and added in the same way; its
  crop box is its media box. For margins that are not negative the media box contains
  the bleed box and the bleed box contains the trim box, a side of the outer box
  lying on the side of the inner one when the rounding takes the margin away.
\<close>

theorem C3_tile_boxes:
  assumes "cutPageToTiles p tileW tileH (Fin bm) (Fin tm) = Some ts" and "t \<in> set ts"
    and "isFin (llx (trimBox p))" and "isFin (lly (trimBox p))" and "0 \<le> bm" and "0 \<le> tm"
  shows "\<exists>H V x y. countH p tileW = Some H \<and> countV p tileH = Some V
      \<and> 0 \<le> x \<and> x < H \<and> 0 \<le> y \<and> y < V \<and> tileX t = x \<and> tileY t = y
      \<and> llx (trimBox t) = fadd (llx (trimBox p)) (fmul (ofInt32 x) (sizeW p H))
      \<and> lly (trimBox t) = fadd (lly (trimBox p)) (fmul (ofInt32 y) (sizeH p V))
      \<and> urx (trimBox t) = fadd (llx (trimBox t)) (sizeW p H)
      \<and> ury (trimBox t) = fadd (lly (trimBox t)) (sizeH p V)
      \<and> bleedBox t = expand (trimBox t) (Fin tm)
      \<and> mediaBox t = expand (bleedBox t) (Fin bm)
      \<and> cropBox t = mediaBox t
      \<and> contains (mediaBox t) (bleedBox t) \<and> contains (bleedBox t) (trimBox t)"
proof -
  from assms(1,2) obtain H V i j where c: "countH p tileW = Some H" "countV p tileH = Some V"
    and ij: "i < nat H" "j < nat V"
    and t: "t = tileOf p (sizeW p H) (sizeH p V) (Fin bm) (Fin tm) i j"
    by (rule tile_in_grid)
  have r: "0 \<le> int i" "int i < H" "0 \<le> int j" "int j < V" using ij by simp_all
  have x: "tileX t = int i" "tileY t = int j" by (simp_all add: t tileOf_boxes)
  have tr: "llx (trimBox t) = fadd (llx (trimBox p)) (fmul (ofInt32 (int i)) (sizeW p H))"
    "lly (trimBox t) = fadd (lly (trimBox p)) (fmul (ofInt32 (int j)) (sizeH p V))"
    "urx (trimBox t) = fadd (llx (trimBox t)) (sizeW p H)"
    "ury (trimBox t) = fadd (lly (trimBox t)) (sizeH p V)"
    by (simp_all add: t tileOf_boxes(1) mkRect_def)
  have bx: "bleedBox t = expand (trimBox t) (Fin tm)" "mediaBox t = expand (bleedBox t) (Fin bm)"
    "cropBox t = mediaBox t"
    unfolding t by (rule tileOf_boxes)+
  note n = tile_nesting[OF c ij assms(3,4,5,6), folded t]
  show ?thesis
    apply (rule exI[of _ H], rule exI[of _ V], rule exI[of _ "int i"], rule exI[of _ "int j"])
    apply (rule conjI, rule c(1))
    apply (rule conjI, rule c(2))
    apply (rule conjI, rule r(1))
    apply (rule conjI, rule r(2))
    apply (rule conjI, rule r(3))
    apply (rule conjI, rule r(4))
    apply (rule conjI, rule x(1))
    apply (rule conjI, rule x(2))
    apply (rule conjI, rule tr(1))
    apply (rule conjI, rule tr(2))
    apply (rule conjI, rule tr(3))
    apply (rule conjI, rule tr(4))
    apply (rule conjI, rule bx(1))
    apply (rule conjI, rule bx(2))
    apply (rule conjI, rule bx(3))
    apply (rule conjI, rule n(1))
    apply (rule n(2))
    done
qed

theorem C3_witness:
  "cutPageToTiles examplePage (Fin 560) (Fin 810) (Fin 60) (Fin 12) =
     Some [tileOf examplePage (Fin 300) (Fin 450) (Fin 60) (Fin 12) 0 0,
           tileOf examplePage (Fin 300) (Fin 450) (Fin 60) (Fin 12) 1 0,
           tileOf examplePage (Fin 300) (Fin 450) (Fin 60) (Fin 12) 0 1,
           tileOf examplePage (Fin 300) (Fin 450) (Fin 60) (Fin 12) 1 1]
   \<and> isFin (llx (trimBox examplePage)) \<and> isFin (lly (trimBox examplePage))
   \<and> (0::real) \<le> 60 \<and> (0::real) \<le> 12
   \<and> trimBox (tileOf examplePage (Fin 300) (Fin 450) (Fin 60) (Fin 12) 1 1) = box 300 450 600 900
   \<and> bleedBox (tileOf examplePage (Fin 300) (Fin 450) (Fin 60) (Fin 12) 1 1) = box 288 438 612 912
   \<and> mediaBox (tileOf examplePage (Fin 300) (Fin 450) (Fin 60) (Fin 12) 1 1) = box 228 378 672 972
   \<and> cropBox (tileOf examplePage (Fin 300) (Fin 450) (Fin 60) (Fin 12) 1 1) = box 228 378 672 972
   \<and> contains (mediaBox (tileOf examplePage (Fin 300) (Fin 450) (Fin 60) (Fin 12) 1 1))
               (bleedBox (tileOf examplePage (Fin 300) (Fin 450) (Fin 60) (Fin 12) 1 1))
   \<and> contains (bleedBox (tileOf examplePage (Fin 300) (Fin 450) (Fin 60) (Fin 12) 1 1))
               (trimBox (tileOf examplePage (Fin 300) (Fin 450) (Fin 60) (Fin 12) 1 1))"
proof -
  let ?t = "tileOf examplePage (Fin 300) (Fin 450) (Fin 60) (Fin 12) 1 1"
  have f: "isFin (llx (trimBox examplePage))" "isFin (lly (trimBox examplePage))"
    by (simp_all add: examplePage_def box_def mkRect_def)
  have m: "?t \<in> set [tileOf examplePage (Fin 300) (Fin 450) (Fin 60) (Fin 12) 0 0,
           tileOf examplePage (Fin 300) (Fin 450) (Fin 60) (Fin 12) 1 0,
           tileOf examplePage (Fin 300) (Fin 450) (Fin 60) (Fin 12) 0 1, ?t]"
    by simp
  have "(0::real) \<le> 60" "(0::real) \<le> 12" by simp_all
  from C3_tile_boxes[OF example_cut m f this]
  have n: "contains (mediaBox ?t) (bleedBox ?t)" "contains (bleedBox ?t) (trimBox ?t)" by blast+
  show ?thesis
    apply (rule conjI, rule example_cut)
    apply (rule conjI, rule f(1))
    apply (rule conjI, rule f(2))
    apply (rule conjI, simp)
    apply (rule conjI, simp)
    apply (rule conjI, rule example_boxes(1))
    apply (rule conjI, rule example_boxes(2))
    apply (rule conjI, rule example_boxes(3))
    apply (rule conjI, rule example_boxes(4))
    apply (rule conjI, rule n(1))
    apply (rule n(2))
    done
qed

theorem C3_counterexample:
  "trimM32 = Fin 12 \<and> bleedM32 = Fin 60
   \<and> (\<exists>ts. cutPageToTiles farPage a4W a4H bleedM32 trimM32 = Some ts
         \<and> llx (trimBox (ts ! 0)) = Fin 1000000000
         \<and> llx (bleedBox (ts ! 0)) = Fin 1000000000
         \<and> llx (mediaBox (ts ! 0)) = Fin 999999936)"
  by (simp add: margins32 far_cut far_boxes)

subsection \<open>Order and coverage of the tiles\<close>

lemma flat_counts: "countH flatPage (Fin 560) = Some 0" "countV flatPage (Fin 810) = Some 1"
  by (simp_all add: countH_def countV_def trimWidth_def trimHeight_def flatPage_def box_def
      mkRect_def fsub_Fin ceilInt_def f32_eval)

lemma flat_cut: "cutPageToTiles flatPage (Fin 560) (Fin 810) bm tm = Some []"
  using cutPageToTiles_grid[OF flat_counts, of bm tm] by (simp add: grid_def)

lemma shifted_counts:
  "countH shiftedPage a4W = Some 3" "countV shiftedPage a4H = Some 2"
  "sizeW shiftedPage 3 = Fin (10922667 / 32768)" "sizeH shiftedPage 2 = Fin 500"
  by (simp_all add: countH_def countV_def sizeW_def sizeH_def trimWidth_def trimHeight_def
      shiftedPage_def box_def mkRect_def fsub_Fin ofInt32_def a4_targets ceilInt_def f32_eval)

lemma shifted_cut:
  "cutPageToTiles shiftedPage a4W a4H bm tm =
     Some [tileOf shiftedPage (Fin (10922667 / 32768)) (Fin 500) bm tm 0 0,
           tileOf shiftedPage (Fin (10922667 / 32768)) (Fin 500) bm tm 1 0,
           tileOf shiftedPage (Fin (10922667 / 32768)) (Fin 500) bm tm 2 0,
           tileOf shiftedPage (Fin (10922667 / 32768)) (Fin 500) bm tm 0 1,
           tileOf shiftedPage (Fin (10922667 / 32768)) (Fin 500) bm tm 1 1,
           tileOf shiftedPage (Fin (10922667 / 32768)) (Fin 500) bm tm 2 1]"
  using cutPageToTiles_grid[OF shifted_counts(1,2), of bm tm]
  by (simp add: shifted_counts grid_def upt_rec numeral_2_eq_2)

lemma shifted_boxes:
  "trimBox (tileOf shiftedPage (Fin (10922667 / 32768)) (Fin 500) bm tm (Suc 0) 0)
     = box (1365743 / 4096) (13421773 / 134217728) (5462153 / 8192) (16387277 / 32768)"
  "trimBox (tileOf shiftedPage (Fin (10922667 / 32768)) (Fin 500) bm tm 2 0)
     = box (10924305 / 16384) (13421773 / 134217728) (8192819 / 8192) (16387277 / 32768)"
  by (simp_all add: tileOf_def newTile_def mkRect_def box_def shiftedPage_def ofInt32_def f32_eval)

lemma nat_index:
  assumes "0 \<le> x" "0 \<le> y" "0 \<le> H"
  shows "nat (y * H + x) = nat y * nat H + nat x"
proof -
  have "0 \<le> y * H" using assms by simp
  then show ?thesis using assms by (simp add: nat_add_distrib nat_mult_distrib)
qed

text \<open>
  Claim C2. For a page whose trim box has finite coordinates of size at most \<open>2 ^ 124\<close>
  and which is cut into at least one and fewer than \<open>2 ^ 24\<close> columns and rows, the
  tiles are in row-major order: the tile of column \<open>x\<close> and row \<open>y\<close> is at the index
  \<open>y * hTiles + x\<close>, row 0 first. The trim boxes follow the exact grid that cuts the
  trim box of the page into \<open>hTiles\<close> by \<open>vTiles\<close> equal cells, up to the rounding of
  \<^verbatim>\<open>float32\<close>: the left edge of the tile lies within the scale of the coordinates
  divided by \<open>2 ^ 17\<close> of the grid line \<open>x\<close>, its right edge within the same distance of
  the grid line \<open>x + 1\<close>, and the same for the lower and the upper edge; the left edge
  of column 0 and the lower edge of row 0 are those of the page. So the trim boxes
  cover the trim box of the page, and neighbours neither overlap nor leave a gap, up
  to this distance.
\<close>

theorem C2_order_and_coverage:
  assumes "countH p tileW = Some H" and "countV p tileH = Some V"
    and "1 \<le> H" and "H < 2 ^ 24" and "1 \<le> V" and "V < 2 ^ 24"
    and "trimBox p = box a b c d" and "isF32 a" and "isF32 b" and "isF32 c" and "isF32 d"
    and "scale a c \<le> 2 ^ 124" and "scale b d \<le> 2 ^ 124"
  shows "\<exists>ts. cutPageToTiles p tileW tileH bleedM trimM = Some ts
     \<and> length ts = nat (H * V)
     \<and> (\<forall>x y. 0 \<le> x \<and> x < H \<and> 0 \<le> y \<and> y < V \<longrightarrow>
           tileX (ts ! nat (y * H + x)) = x \<and> tileY (ts ! nat (y * H + x)) = y
         \<and> (\<exists>l lo r u. trimBox (ts ! nat (y * H + x)) = box l lo r u
               \<and> \<bar>l - gridLine a c H x\<bar> \<le> scale a c / 2 ^ 17
               \<and> \<bar>r - gridLine a c H (x + 1)\<bar> \<le> scale a c / 2 ^ 17
               \<and> \<bar>lo - gridLine b d V y\<bar> \<le> scale b d / 2 ^ 17
               \<and> \<bar>u - gridLine b d V (y + 1)\<bar> \<le> scale b d / 2 ^ 17
               \<and> (x = 0 \<longrightarrow> l = a) \<and> (y = 0 \<longrightarrow> lo = b)))"
proof -
  let ?f = "tileOf p (sizeW p H) (sizeH p V) bleedM trimM"
  let ?ts = "grid (nat H) (nat V) ?f"
  have cut: "cutPageToTiles p tileW tileH bleedM trimM = Some ?ts"
    using assms(1,2) by (rule cutPageToTiles_grid)
  have len: "length ?ts = nat (H * V)"
    using assms(3,5) by (simp add: grid_length nat_mult_distrib mult.commute)
  have tile: "tileX (?ts ! nat (y * H + x)) = x \<and> tileY (?ts ! nat (y * H + x)) = y
         \<and> (\<exists>l lo r u. trimBox (?ts ! nat (y * H + x)) = box l lo r u
               \<and> \<bar>l - gridLine a c H x\<bar> \<le> scale a c / 2 ^ 17
               \<and> \<bar>r - gridLine a c H (x + 1)\<bar> \<le> scale a c / 2 ^ 17
               \<and> \<bar>lo - gridLine b d V y\<bar> \<le> scale b d / 2 ^ 17
               \<and> \<bar>u - gridLine b d V (y + 1)\<bar> \<le> scale b d / 2 ^ 17
               \<and> (x = 0 \<longrightarrow> l = a) \<and> (y = 0 \<longrightarrow> lo = b))"
    if r: "0 \<le> x" "x < H" "0 \<le> y" "y < V" for x y
  proof -
    have ij: "nat x < nat H" "nat y < nat V" using r by simp_all
    have ix: "nat (y * H + x) = nat y * nat H + nat x" using r assms(3) by (intro nat_index) simp_all
    have e: "?ts ! nat (y * H + x) = ?f (nat x) (nat y)" unfolding ix using ij by (rule grid_nth)
    have xy: "int (nat x) = x" "int (nat y) = y" using r by simp_all
    from tile_box[OF assms(7-13) assms(4,6) ij, of bleedM trimM, unfolded xy]
    obtain l lo r u where b: "trimBox (?f (nat x) (nat y)) = box l lo r u"
      "\<bar>l - gridLine a c H x\<bar> \<le> scale a c / 2 ^ 18"
      "\<bar>r - gridLine a c H (x + 1)\<bar> \<le> scale a c / 2 ^ 17"
      "\<bar>lo - gridLine b d V y\<bar> \<le> scale b d / 2 ^ 18"
      "\<bar>u - gridLine b d V (y + 1)\<bar> \<le> scale b d / 2 ^ 17"
      "nat x = 0 \<longrightarrow> l = a" "nat y = 0 \<longrightarrow> lo = b"
      by (elim exE conjE) (rule that)
    have s: "scale a c / 2 ^ 18 \<le> scale a c / 2 ^ 17" "scale b d / 2 ^ 18 \<le> scale b d / 2 ^ 17"
      using scale_bounds(1)[of a c] scale_bounds(1)[of b d] by simp_all
    have b2: "\<bar>l - gridLine a c H x\<bar> \<le> scale a c / 2 ^ 17" using b(2) s(1) by (rule order_trans)
    have b4: "\<bar>lo - gridLine b d V y\<bar> \<le> scale b d / 2 ^ 17" using b(4) s(2) by (rule order_trans)
    have z: "x = 0 \<longrightarrow> l = a" "y = 0 \<longrightarrow> lo = b" using b(6,7) by simp_all
    have t: "tileX (?f (nat x) (nat y)) = x" "tileY (?f (nat x) (nat y)) = y"
      using xy by (simp_all add: tileOf_boxes)
    have "\<exists>l lo r u. trimBox (?f (nat x) (nat y)) = box l lo r u
               \<and> \<bar>l - gridLine a c H x\<bar> \<le> scale a c / 2 ^ 17
               \<and> \<bar>r - gridLine a c H (x + 1)\<bar> \<le> scale a c / 2 ^ 17
               \<and> \<bar>lo - gridLine b d V y\<bar> \<le> scale b d / 2 ^ 17
               \<and> \<bar>u - gridLine b d V (y + 1)\<bar> \<le> scale b d / 2 ^ 17
               \<and> (x = 0 \<longrightarrow> l = a) \<and> (y = 0 \<longrightarrow> lo = b)"
      apply (rule exI[of _ l], rule exI[of _ lo], rule exI[of _ r], rule exI[of _ u])
      apply (rule conjI, rule b(1))
      apply (rule conjI, rule b2)
      apply (rule conjI, rule b(3))
      apply (rule conjI, rule b4)
      apply (rule conjI, rule b(5))
      apply (rule conjI, rule z(1))
      apply (rule z(2))
      done
    then show ?thesis unfolding e using t by (intro conjI)
  qed
  have all: "\<forall>x y. 0 \<le> x \<and> x < H \<and> 0 \<le> y \<and> y < V \<longrightarrow>
           tileX (?ts ! nat (y * H + x)) = x \<and> tileY (?ts ! nat (y * H + x)) = y
         \<and> (\<exists>l lo r u. trimBox (?ts ! nat (y * H + x)) = box l lo r u
               \<and> \<bar>l - gridLine a c H x\<bar> \<le> scale a c / 2 ^ 17
               \<and> \<bar>r - gridLine a c H (x + 1)\<bar> \<le> scale a c / 2 ^ 17
               \<and> \<bar>lo - gridLine b d V y\<bar> \<le> scale b d / 2 ^ 17
               \<and> \<bar>u - gridLine b d V (y + 1)\<bar> \<le> scale b d / 2 ^ 17
               \<and> (x = 0 \<longrightarrow> l = a) \<and> (y = 0 \<longrightarrow> lo = b))"
    using tile by (intro allI impI) (elim conjE)
  show ?thesis
    apply (rule exI[of _ ?ts])
    apply (rule conjI, rule cut)
    apply (rule conjI, rule len)
    apply (rule all)
    done
qed

theorem C2_witness:
  "countH examplePage (Fin 560) = Some 2 \<and> countV examplePage (Fin 810) = Some 2
   \<and> (1::int) \<le> 2 \<and> (2::int) < 2 ^ 24
   \<and> trimBox examplePage = box 0 0 600 900 \<and> isF32 0 \<and> isF32 600 \<and> isF32 900
   \<and> scale 0 600 \<le> 2 ^ 124 \<and> scale 0 900 \<le> 2 ^ 124
   \<and> (\<exists>ts. cutPageToTiles examplePage (Fin 560) (Fin 810) bleedM32 trimM32 = Some ts
         \<and> length ts = 4
         \<and> tileX (ts ! 2) = 0 \<and> tileY (ts ! 2) = 1
         \<and> (\<exists>l lo r u. trimBox (ts ! 2) = box l lo r u
               \<and> \<bar>l - gridLine 0 600 2 0\<bar> \<le> scale 0 600 / 2 ^ 17
               \<and> \<bar>r - gridLine 0 600 2 1\<bar> \<le> scale 0 600 / 2 ^ 17
               \<and> \<bar>lo - gridLine 0 900 2 1\<bar> \<le> scale 0 900 / 2 ^ 17
               \<and> \<bar>u - gridLine 0 900 2 2\<bar> \<le> scale 0 900 / 2 ^ 17
               \<and> l = 0)
         \<and> trimBox (ts ! 2) = box 0 450 300 900)"
proof -
  have h: "(1::int) \<le> 2" "(2::int) < 2 ^ 24" by simp_all
  have tb: "trimBox examplePage = box 0 0 600 900" by (simp add: examplePage_def)
  have f: "isF32 0" "isF32 600" "isF32 900" by (simp_all add: isF32_Ints)
  have s: "scale 0 600 \<le> 2 ^ 124" "scale 0 900 \<le> 2 ^ 124" by (simp_all add: scale_def)
  note C2_order_and_coverage[OF example_counts(1,2) h h tb f(1) f(1) f(2) f(3) s, of bleedM32 trimM32]
  then obtain ts where ts: "cutPageToTiles examplePage (Fin 560) (Fin 810) bleedM32 trimM32 = Some ts"
    and len: "length ts = nat (2 * 2)"
    and a: "\<forall>x y. 0 \<le> x \<and> x < 2 \<and> 0 \<le> y \<and> y < 2 \<longrightarrow>
           tileX (ts ! nat (y * 2 + x)) = x \<and> tileY (ts ! nat (y * 2 + x)) = y
         \<and> (\<exists>l lo r u. trimBox (ts ! nat (y * 2 + x)) = box l lo r u
               \<and> \<bar>l - gridLine 0 600 2 x\<bar> \<le> scale 0 600 / 2 ^ 17
               \<and> \<bar>r - gridLine 0 600 2 (x + 1)\<bar> \<le> scale 0 600 / 2 ^ 17
               \<and> \<bar>lo - gridLine 0 900 2 y\<bar> \<le> scale 0 900 / 2 ^ 17
               \<and> \<bar>u - gridLine 0 900 2 (y + 1)\<bar> \<le> scale 0 900 / 2 ^ 17
               \<and> (x = 0 \<longrightarrow> l = 0) \<and> (y = 0 \<longrightarrow> lo = 0))"
    by (elim exE conjE) (rule that)
  have l4: "length ts = 4" using len by simp
  from a[rule_format, of 0 1]
  have t: "tileX (ts ! 2) = 0" "tileY (ts ! 2) = 1"
    and e: "\<exists>l lo r u. trimBox (ts ! 2) = box l lo r u
               \<and> \<bar>l - gridLine 0 600 2 0\<bar> \<le> scale 0 600 / 2 ^ 17
               \<and> \<bar>r - gridLine 0 600 2 1\<bar> \<le> scale 0 600 / 2 ^ 17
               \<and> \<bar>lo - gridLine 0 900 2 1\<bar> \<le> scale 0 900 / 2 ^ 17
               \<and> \<bar>u - gridLine 0 900 2 2\<bar> \<le> scale 0 900 / 2 ^ 17
               \<and> l = 0"
    by simp_all
  have tse: "ts = [tileOf examplePage (Fin 300) (Fin 450) bleedM32 trimM32 0 0,
      tileOf examplePage (Fin 300) (Fin 450) bleedM32 trimM32 1 0,
      tileOf examplePage (Fin 300) (Fin 450) bleedM32 trimM32 0 1,
      tileOf examplePage (Fin 300) (Fin 450) bleedM32 trimM32 1 1]"
    using ts unfolding example_cut by simp
  have v: "trimBox (ts ! 2) = box 0 450 300 900"
    unfolding tse by (simp add: tile_eval examplePage_def)
  show ?thesis
    apply (rule conjI, rule example_counts(1))
    apply (rule conjI, rule example_counts(2))
    apply (rule conjI, rule h(1))
    apply (rule conjI, rule h(2))
    apply (rule conjI, rule tb)
    apply (rule conjI, rule f(1))
    apply (rule conjI, rule f(2))
    apply (rule conjI, rule f(3))
    apply (rule conjI, rule s(1))
    apply (rule conjI, rule s(2))
    apply (rule exI[of _ ts])
    apply (rule conjI, rule ts)
    apply (rule conjI, rule l4)
    apply (rule conjI, rule t(1))
    apply (rule conjI, rule t(2))
    apply (rule conjI, rule e)
    apply (rule v)
    done
qed

theorem C2_counterexample:
  "isValid (trimBox flatPage)
   \<and> cutPageToTiles flatPage (Fin 560) (Fin 810) bleedM32 trimM32 = Some []
   \<and> (0, 50) \<in> points (trimBox flatPage)
   \<and> (\<exists>ts. cutPageToTiles shiftedPage a4W a4H bleedM32 trimM32 = Some ts
         \<and> trimBox (ts ! 1)
             = box (1365743 / 4096) (13421773 / 134217728) (5462153 / 8192) (16387277 / 32768)
         \<and> trimBox (ts ! 2)
             = box (10924305 / 16384) (13421773 / 134217728) (8192819 / 8192) (16387277 / 32768)
         \<and> (21848611 / 32768, 100) \<in> innerPoints (trimBox (ts ! 1)) \<inter> innerPoints (trimBox (ts ! 2)))"
proof -
  have 1: "isValid (trimBox flatPage)" by (simp add: flatPage_def isValid_def box_def mkRect_def)
  have 2: "(0, 50) \<in> points (trimBox flatPage)" by (simp add: flatPage_def points_def box_def mkRect_def)
  have 3: "(21848611 / 32768, 100)
      \<in> innerPoints (box (1365743 / 4096) (13421773 / 134217728) (5462153 / 8192) (16387277 / 32768))
        \<inter> innerPoints (box (10924305 / 16384) (13421773 / 134217728) (8192819 / 8192) (16387277 / 32768))"
    by (simp add: innerPoints_def box_def mkRect_def)
  let ?ts = "[tileOf shiftedPage (Fin (10922667 / 32768)) (Fin 500) bleedM32 trimM32 0 0,
           tileOf shiftedPage (Fin (10922667 / 32768)) (Fin 500) bleedM32 trimM32 1 0,
           tileOf shiftedPage (Fin (10922667 / 32768)) (Fin 500) bleedM32 trimM32 2 0,
           tileOf shiftedPage (Fin (10922667 / 32768)) (Fin 500) bleedM32 trimM32 0 1,
           tileOf shiftedPage (Fin (10922667 / 32768)) (Fin 500) bleedM32 trimM32 1 1,
           tileOf shiftedPage (Fin (10922667 / 32768)) (Fin 500) bleedM32 trimM32 2 1]"
  have b1: "trimBox (?ts ! 1)
      = box (1365743 / 4096) (13421773 / 134217728) (5462153 / 8192) (16387277 / 32768)"
    by (simp add: shifted_boxes)
  have b2: "trimBox (?ts ! 2)
      = box (10924305 / 16384) (13421773 / 134217728) (8192819 / 8192) (16387277 / 32768)"
    by (simp add: shifted_boxes)
  have 4: "(21848611 / 32768, 100) \<in> innerPoints (trimBox (?ts ! 1)) \<inter> innerPoints (trimBox (?ts ! 2))"
    unfolding b1 b2 by (rule 3)
  show ?thesis
    apply (rule conjI, rule 1)
    apply (rule conjI, rule flat_cut)
    apply (rule conjI, rule 2)
    apply (rule exI[of _ ?ts])
    apply (rule conjI, rule shifted_cut)
    apply (rule conjI, rule b1)
    apply (rule conjI, rule b2)
    apply (rule 4)
    done
qed

subsection \<open>The labels of a tile\<close>

lemma formatNat_small: "2 \<le> b \<Longrightarrow> n < b \<Longrightarrow> formatNat b n = [digitChar n]"
  by (subst formatNat.simps) simp

lemma formatNat_large:
  "2 \<le> b \<Longrightarrow> b \<le> n \<Longrightarrow> formatNat b n = formatNat b (n div b) @ [digitChar (n mod b)]"
  by (subst formatNat.simps) simp

lemma formatNat_fold:
  assumes b: "2 \<le> b" and dv: "\<And>d. d < b \<Longrightarrow> dv (g (digitChar d)) = d"
  shows "foldl (\<lambda>a c. b * a + dv c) 0 (map g (formatNat b n)) = n"
proof (induction n rule: less_induct)
  case (less n)
  show ?case
  proof (cases "n < b")
    case True
    then show ?thesis using b dv by (simp add: formatNat_small)
  next
    case False
    then have bn: "b \<le> n" by simp
    have "n div b < n" using b bn by (intro div_less_dividend) simp_all
    from less.IH[OF this] have
      ih: "foldl (\<lambda>a c. b * a + dv c) 0 (map g (formatNat b (n div b))) = n div b" .
    have "n mod b < b" using b by simp
    then have "dv (g (digitChar (n mod b))) = n mod b" by (rule dv)
    then show ?thesis unfolding formatNat_large[OF b bn] by (simp add: ih)
  qed
qed

lemma formatNat_all:
  assumes b: "2 \<le> b" and P: "\<And>d. d < b \<Longrightarrow> P (digitChar d)"
  shows "list_all P (formatNat b n)"
proof (induction n rule: less_induct)
  case (less n)
  show ?case
  proof (cases "n < b")
    case True
    then show ?thesis using b P by (simp add: formatNat_small)
  next
    case False
    then have bn: "b \<le> n" by simp
    have "n div b < n" using b bn by (intro div_less_dividend) simp_all
    from less.IH[OF this] have "list_all P (formatNat b (n div b))" .
    moreover have "P (digitChar (n mod b))" using b by (intro P) simp
    ultimately show ?thesis unfolding formatNat_large[OF b bn] by simp
  qed
qed

lemma formatNat_hd:
  assumes b: "2 \<le> b" and n: "0 < n"
  shows "\<exists>d. 0 < d \<and> d < b \<and> hd (formatNat b n) = digitChar d \<and> formatNat b n \<noteq> []"
  using n
proof (induction n rule: less_induct)
  case (less n)
  show ?case
  proof (cases "n < b")
    case True
    then show ?thesis using b less.prems by (auto simp: formatNat_small)
  next
    case False
    then have bn: "b \<le> n" by simp
    have lt: "n div b < n" using b bn by (intro div_less_dividend) simp_all
    have pos: "0 < n div b" using b bn by (simp add: div_greater_zero_iff)
    from less.IH[OF lt pos] obtain d where
      d: "0 < d" "d < b" "hd (formatNat b (n div b)) = digitChar d" "formatNat b (n div b) \<noteq> []"
      by blast
    then show ?thesis unfolding formatNat_large[OF b bn] by auto
  qed
qed

lemma alpha_table: "map (\<lambda>d. alphaByte (digitChar d)) [0..<26] = alphabet"
  by (simp add: alphaByte_def digitChar_def alphabet_def upt_rec char_of_eq_iff)

lemma alphaByte_digit:
  assumes "d < 26"
  shows "alphaByte (digitChar d) = alphabet ! d"
proof -
  have "alphabet ! d = map (\<lambda>d. alphaByte (digitChar d)) [0..<26] ! d"
    by (simp only: alpha_table)
  also have "\<dots> = alphaByte (digitChar d)" using assms by simp
  finally show ?thesis by simp
qed

lemma alphabet_values:
  "map (\<lambda>d. (of_char (alphabet ! d) :: nat) - 65) [0..<26] = [0..<26]"
  by (simp add: alphabet_def upt_rec)

lemma alphabet_value:
  assumes "d < 26"
  shows "(of_char (alphabet ! d) :: nat) - 65 = d"
proof -
  have "(of_char (alphabet ! d) :: nat) - 65
      = map (\<lambda>d. (of_char (alphabet ! d) :: nat) - 65) [0..<26] ! d"
    using assms by simp
  also have "\<dots> = d" using assms by (simp only: alphabet_values) simp
  finally show ?thesis .
qed

lemma alphabet_length: "length alphabet = 26"
  by (simp add: alphabet_def)

lemma alphabet_mem: "d < 26 \<Longrightarrow> alphabet ! d \<in> set alphabet"
  by (rule nth_mem) (simp only: alphabet_length)

lemma alphabet_not_A:
  assumes "0 < d" "d < 26"
  shows "alphabet ! d \<noteq> CHR ''A''"
proof
  assume "alphabet ! d = CHR ''A''"
  then have "(of_char (alphabet ! d) :: nat) - 65 = 0" by simp
  then show False using alphabet_value[OF assms(2)] assms(1) by simp
qed

lemma digit_values: "map (\<lambda>d. digitVal (digitChar d)) [0..<10] = [0..<10]"
  by (simp add: digitVal_def digitChar_def upt_rec)

lemma digit_value:
  assumes "d < 10"
  shows "digitVal (digitChar d) = d"
proof -
  have "digitVal (digitChar d) = map (\<lambda>d. digitVal (digitChar d)) [0..<10] ! d"
    using assms by simp
  also have "\<dots> = d" using assms by (simp only: digit_values) simp
  finally show ?thesis .
qed

lemma digit_isDigit: "d < 10 \<Longrightarrow> isDigit (digitChar d)"
proof -
  assume d: "d < 10"
  have "list_all isDigit (map digitChar [0..<10])"
    by (simp add: isDigit_def digitChar_def upt_rec)
  then have "isDigit (map digitChar [0..<10] ! d)"
    unfolding list_all_length using d by simp
  then show ?thesis using d by simp
qed

lemma numToAlpha_nonneg:
  assumes "0 \<le> n"
  shows "numToAlpha n = map alphaByte (formatNat 26 (nat n))"
  using assms by (simp add: numToAlpha_def FormatInt_def)

lemma numToAlpha_value: "0 \<le> n \<Longrightarrow> alphaValue (numToAlpha n) = nat n"
  unfolding alphaValue_def
  by (simp only: numToAlpha_nonneg)
     (rule formatNat_fold, simp, simp add: alphaByte_digit alphabet_value)

lemma numToAlpha_letters: "0 \<le> n \<Longrightarrow> set (numToAlpha n) \<subseteq> set alphabet"
proof -
  assume n: "0 \<le> n"
  have "list_all (\<lambda>c. alphaByte c \<in> set alphabet) (formatNat 26 (nat n))"
    by (rule formatNat_all) (simp_all add: alphaByte_digit alphabet_mem)
  then show ?thesis unfolding numToAlpha_nonneg[OF n] by (auto simp: list_all_iff)
qed

lemma numToAlpha_hd:
  assumes "0 < n"
  shows "hd (numToAlpha n) \<noteq> CHR ''A''"
proof -
  have n: "0 \<le> n" "0 < nat n" using assms by simp_all
  from formatNat_hd[OF _ n(2), of 26] obtain d where
    d: "0 < d" "d < 26" "hd (formatNat 26 (nat n)) = digitChar d" "formatNat 26 (nat n) \<noteq> []"
    by auto
  have "hd (numToAlpha n) = alphaByte (digitChar d)"
    unfolding numToAlpha_nonneg[OF n(1)] using d(3,4) by (simp add: hd_map)
  then show ?thesis using alphabet_not_A[OF d(1,2)] alphaByte_digit[OF d(2)] by simp
qed

lemma numToAlpha_single:
  assumes "0 \<le> n" "n < 26"
  shows "numToAlpha n = [alphabet ! nat n]"
proof -
  have "nat n < 26" using assms by simp
  then show ?thesis
    unfolding numToAlpha_nonneg[OF assms(1)] by (simp add: formatNat_small alphaByte_digit)
qed

lemma numToAlpha_26: "numToAlpha 26 = ''BA''"
  by (simp add: numToAlpha_def FormatInt_def formatNat.simps alphaByte_def digitChar_def char_of_eq_iff)

lemma Itoa_nonneg: "0 \<le> n \<Longrightarrow> Itoa n = formatNat 10 (nat n)"
  by (simp add: Itoa_def FormatInt_def)

lemma Itoa_value: "0 \<le> n \<Longrightarrow> decVal (Itoa n) = nat n"
  unfolding decVal_def
  using formatNat_fold[of 10 digitVal "\<lambda>c. c" "nat n"]
  by (simp add: Itoa_nonneg digit_value)

lemma Itoa_digits: "0 \<le> n \<Longrightarrow> list_all isDigit (Itoa n)"
  unfolding Itoa_nonneg by (rule formatNat_all) (simp_all add: digit_isDigit)

text \<open>
  Claim C8, as amended. The row label of a tile is \<^verbatim>\<open>numToAlpha(tileY)\<close>, the row index
  written in base 26 with the digits \<open>A\<close> (zero) to \<open>Z\<close> (twenty-five): it consists of
  letters, it denotes the row index, it has no leading \<open>A\<close> for a positive index, the
  rows 0 to 25 are \<open>A\<close> to \<open>Z\<close>, and the row 26 is \<open>BA\<close>. The column label is the decimal
  numeral of \<open>tileX + 1\<close>.
\<close>

theorem C8_tile_labels:
  assumes "0 \<le> tileY p" and "0 \<le> tileX p"
  shows "set (tileRowLabel p) \<subseteq> set alphabet
       \<and> alphaValue (tileRowLabel p) = nat (tileY p)
       \<and> (0 < tileY p \<longrightarrow> hd (tileRowLabel p) \<noteq> CHR ''A'')
       \<and> (tileY p < 26 \<longrightarrow> tileRowLabel p = [alphabet ! nat (tileY p)])
       \<and> (tileY p = 26 \<longrightarrow> tileRowLabel p = ''BA'')
       \<and> list_all isDigit (tileColumnLabel p)
       \<and> decVal (tileColumnLabel p) = nat (tileX p + 1)"
proof -
  have x: "0 \<le> tileX p + 1" using assms(2) by simp
  show ?thesis
    unfolding tileRowLabel_def tileColumnLabel_def
    using numToAlpha_letters[OF assms(1)] numToAlpha_value[OF assms(1)] numToAlpha_hd[of "tileY p"]
      numToAlpha_single[OF assms(1)] numToAlpha_26 Itoa_digits[OF x] Itoa_value[OF x]
    by simp
qed

theorem C8_witness:
  "(0::int) \<le> tileY labelledTile \<and> (0::int) \<le> tileX labelledTile
   \<and> tileRowLabel labelledTile = ''BB''
   \<and> alphaValue (tileRowLabel labelledTile) = 27
   \<and> hd (tileRowLabel labelledTile) \<noteq> CHR ''A''
   \<and> tileColumnLabel labelledTile = ''3''
   \<and> decVal (tileColumnLabel labelledTile) = 3"
proof -
  have y: "0 \<le> tileY labelledTile" and x: "0 \<le> tileX labelledTile"
    by (simp_all add: labelledTile_def zeroPage_def)
  have r: "tileRowLabel labelledTile = ''BB''"
    by (simp add: tileRowLabel_def labelledTile_def zeroPage_def numToAlpha_def FormatInt_def
        formatNat.simps alphaByte_def digitChar_def char_of_eq_iff)
  have c: "tileColumnLabel labelledTile = ''3''"
    by (simp add: tileColumnLabel_def labelledTile_def zeroPage_def Itoa_def FormatInt_def
        formatNat.simps digitChar_def)
  have "tileY labelledTile = 27" "tileX labelledTile = 2"
    by (simp_all add: labelledTile_def zeroPage_def)
  with C8_tile_labels[OF y x] r c y x show ?thesis by simp
qed

text \<open>The row 26 is not \<open>AA\<close>, as the claim has it.\<close>

theorem C8_counterexample:
  "tileRowLabel (zeroPage\<lparr>tileY := 26\<rparr>) = ''BA'' \<and> tileRowLabel (zeroPage\<lparr>tileY := 26\<rparr>) \<noteq> ''AA''"
  by (simp add: tileRowLabel_def numToAlpha_26)

subsection \<open>Evaluating the patterns\<close>

text \<open>
  The search for a pattern that begins with \<open>Bol\<close> steps over every position that is
  not at the start of a line; the rules below make the simplifier do so.
\<close>

lemma mt_anchored: "anchored r \<Longrightarrow> \<not> atBol st \<Longrightarrow> mt r st cs k = None"
  by (induction r arbitrary: st cs k) simp_all

lemma matchAt_anchored:
  assumes "anchored r" and "c \<noteq> newline"
  shows "matchAt r (Some c) s = None"
proof -
  have "\<not> atBol (Some c, s)" using assms(2) by (simp add: atBol_def)
  then show ?thesis using assms(1) by (simp add: matchAt_def mt_anchored)
qed

lemma findFrom_skip:
  assumes "anchored r" and "c \<noteq> newline"
  shows "findFrom r (Some c) (d # s) = findFrom r (Some d) s"
    and "findFrom r (Some c) [] = None"
  using matchAt_anchored[OF assms] by (simp_all add: findFrom.simps)

lemma findFrom_try:
  "findFrom r (Some (CHR 0x0A)) (d # s) =
     (case matchAt r (Some (CHR 0x0A)) (d # s) of Some m \<Rightarrow> Some m | None \<Rightarrow> findFrom r (Some d) s)"
  "findFrom r None (d # s) =
     (case matchAt r None (d # s) of Some m \<Rightarrow> Some m | None \<Rightarrow> findFrom r (Some d) s)"
  "findFrom r b [] = matchAt r b []"
  by (simp_all add: findFrom.simps)

lemma segments_skip:
  assumes "anchored r" and "c \<noteq> newline"
  shows "segments r (Some c) (d # s) = Inl d # segments r (Some d) s"
    and "segments r (Some c) [] = []"
  using matchAt_anchored[OF assms] by (simp_all add: segments.simps)

lemma segments_try:
  "segments r (Some (CHR 0x0A)) (d # s) =
     (case matchAt r (Some (CHR 0x0A)) (d # s) of
        None \<Rightarrow> Inl d # segments r (Some d) s
      | Some m \<Rightarrow>
          if hd m = [] then Inr m # Inl d # segments r (Some d) s
          else Inr m # segments r (Some (last (hd m))) (drop (length (hd m)) (d # s)))"
  "segments r None (d # s) =
     (case matchAt r None (d # s) of
        None \<Rightarrow> Inl d # segments r (Some d) s
      | Some m \<Rightarrow>
          if hd m = [] then Inr m # Inl d # segments r (Some d) s
          else Inr m # segments r (Some (last (hd m))) (drop (length (hd m)) (d # s)))"
  "segments r b [] = (case matchAt r b [] of None \<Rightarrow> [] | Some m \<Rightarrow> [Inr m])"
  by (simp_all add: segments.simps)

lemmas re_eval = findFrom_skip findFrom_try segments_skip segments_try
  FindStringSubmatch_def FindAllStringSubmatch_def ReplaceAllString_def
  matchAt_def submatches_def seqs_def alts_def spaceCls_def digitCls_def anyCls_def oneOf_def
  atBol_def newline_def upt_rec
lemmas pat_eval = boxNumRe_def boxReTpl_def bleedBoxRe_def cropBoxRe_def mediaBoxRe_def trimBoxRe_def
  contentsRe_def contentRefRe_def pageObjRmRe_def pageRe_def pagesRe_def xrefRe_def
lemmas num_eval = atof_def atoi_def Atoi_def ParseFloat32_def unsignedPart_def hasSign_def isNeg_def
  decimalOk_def intPart_def fracPart_def isDigit_def decimalVal_def decVal_def digitVal_def
  f32_eval
lemmas weak_congs = option.case_cong_weak list.case_cong_weak prod.case_cong_weak sum.case_cong_weak
  outcome.case_cong_weak

lemmas ext_eval = extractAttrs_def readContentIds_def rectOf_def boxOr_def isValid_def mkRect_def
  box_def zeroPage_def

subsection \<open>The defaults of the boxes\<close>












subsection \<open>Conversions that panic\<close>

lemma range_contents: "FindStringSubmatch contentsRe rangeBody = Some [''  /Contents 4'', ''4'', '''']"
  by (simp add: re_eval pat_eval rangeBody_def cong: weak_congs)

lemma range_media: "FindStringSubmatch mediaBoxRe rangeBody
    = Some [''  /MediaBox [0 0 400000000000000000000000000000000000000.0 9]'', ''0'', ''0'',
            ''400000000000000000000000000000000000000.0'', ''9'']"
  by (simp add: re_eval pat_eval rangeBody_def cong: weak_congs)

lemma range_parse:
  "ParseFloat32 ''400000000000000000000000000000000000000.0'' = (PosInf, Some ErrRange)"
  by (simp add: num_eval)

lemma range_panic: "extractAttrs (zeroPage\<lparr>number := 1, raw := rangeBody\<rparr>) = Panic"
  by (simp add: ext_eval range_contents range_media num_eval)

text \<open>
  Claim C10, evaluated on a page body that the patterns accept: the third coordinate
  of the media box is a well-formed real number of PDF beyond the range of
  \<^verbatim>\<open>float32\<close>, \<^verbatim>\<open>ParseFloat\<close> reports a range error, and \<^verbatim>\<open>extractAttrs\<close> panics. The
  pattern of a coordinate also accepts \<open>1.2.3\<close>, and the pattern of an object id accepts
  twenty digits, on which the conversions fail as well.
\<close>

theorem C10_conversion_panics:
  "FindStringSubmatch contentsRe rangeBody = Some [''  /Contents 4'', ''4'', '''']
   \<and> FindStringSubmatch mediaBoxRe rangeBody
       = Some [''  /MediaBox [0 0 400000000000000000000000000000000000000.0 9]'', ''0'', ''0'',
               ''400000000000000000000000000000000000000.0'', ''9'']
   \<and> ParseFloat32 ''400000000000000000000000000000000000000.0'' = (PosInf, Some ErrRange)
   \<and> extractAttrs (zeroPage\<lparr>number := 1, raw := rangeBody\<rparr>) = Panic
   \<and> matchAt boxNumRe None ''1.2.3'' = Some [''1.2.3''] \<and> atof ''1.2.3'' = None
   \<and> matchAt (Plus digitCls) None ''99999999999999999999'' = Some [''99999999999999999999'']
   \<and> atoi ''99999999999999999999'' = None"
proof -
  have a: "matchAt boxNumRe None ''1.2.3'' = Some [''1.2.3'']"
    by (simp add: re_eval pat_eval cong: weak_congs)
  have b: "atof ''1.2.3'' = None" by (simp add: num_eval)
  have c: "matchAt (Plus digitCls) None ''99999999999999999999'' = Some [''99999999999999999999'']"
    by (simp add: re_eval cong: weak_congs)
  have d: "atoi ''99999999999999999999'' = None" by (simp add: num_eval)
  show ?thesis using range_contents range_media range_parse range_panic a b c d by simp
qed

subsection \<open>Pages that are left out\<close>

lemma trim_contents: "FindStringSubmatch contentsRe trimBody = Some [''  /Contents 4'', ''4'', '''']"
  by (simp add: re_eval pat_eval trimBody_def cong: weak_congs)

lemma trim_media: "FindStringSubmatch mediaBoxRe trimBody
    = Some [''  /MediaBox [0 0 9 9]'', ''0'', ''0'', ''9'', ''9'']"
  by (simp add: re_eval pat_eval trimBody_def cong: weak_congs)

lemma trim_crop: "FindStringSubmatch cropBoxRe trimBody = None"
  by (simp add: re_eval pat_eval trimBody_def cong: weak_congs)

lemma trim_bleed: "FindStringSubmatch bleedBoxRe trimBody
    = Some [''  /BleedBox [0 0 400000000000000000000000000000000000000.0 9]'', ''0'', ''0'',
            ''400000000000000000000000000000000000000.0'', ''9'']"
  by (simp add: re_eval pat_eval trimBody_def cong: weak_congs)

lemma trim_trim: "FindStringSubmatch trimBoxRe trimBody
    = Some [''  /TrimBox [5 5 0 0]'', ''5'', ''5'', ''0'', ''0'']"
  by (simp add: re_eval pat_eval trimBody_def cong: weak_congs)

lemma trim_panic: "extractAttrs (zeroPage\<lparr>number := 1, raw := trimBody\<rparr>) = Panic"
  by (simp add: ext_eval trim_contents trim_media trim_crop trim_bleed num_eval)

lemma trim_rect: "rectOf [''  /TrimBox [5 5 0 0]'', ''5'', ''5'', ''0'', ''0''] = Some (box 5 5 0 0)"
  by (simp add: rectOf_def num_eval box_def)

lemma trimDoc_pages:
  "FindAllStringSubmatch pageRe trimDoc =
     [[''%% Page 1\<newline>%% Original object ID: 3 0\<newline>3 0 obj\<newline><<\<newline>'' @ trimBody
         @ ''\<newline>>>\<newline>endobj'', ''1'', trimBody]]"
  by (simp add: re_eval pat_eval trimDoc_def trimBody_def cong: weak_congs)

lemma pagesLoop_Panic:
  "extractAttrs (zeroPage\<lparr>number := fst (Atoi (pm ! 1)), raw := pm ! 2\<rparr>) = Panic
   \<Longrightarrow> pagesLoop (pm # pms) pages logged = Panic"
  by (simp add: Let_def)

lemma atoi_1: "fst (Atoi ''1'') = 1"
  by (simp add: num_eval)

lemma trimDoc_panic: "getAllPages trimDoc = Panic"
  unfolding getAllPages_def trimDoc_pages
  by (rule pagesLoop_Panic) (simp add: atoi_1 trim_panic)

text \<open>
  Claim C6, evaluated on a page whose trim box \<open>[5 5 0 0]\<close> is not valid and whose
  bleed box has a coordinate beyond the range of \<^verbatim>\<open>float32\<close>: \<^verbatim>\<open>extractAttrs\<close> reads
  the bleed box first and panics, so that \<^verbatim>\<open>getAllPages\<close> neither logs nor goes on.
\<close>

theorem C6_invalid_trim_box_panics:
  "FindStringSubmatch trimBoxRe trimBody = Some [''  /TrimBox [5 5 0 0]'', ''5'', ''5'', ''0'', ''0'']
   \<and> rectOf [''  /TrimBox [5 5 0 0]'', ''5'', ''5'', ''0'', ''0''] = Some (box 5 5 0 0)
   \<and> \<not> isValid (box 5 5 0 0)
   \<and> extractAttrs (zeroPage\<lparr>number := 1, raw := trimBody\<rparr>) = Panic
   \<and> getAllPages trimDoc = Panic"
proof -
  have "\<not> isValid (box 5 5 0 0)" by (simp add: isValid_def mkRect_def box_def)
  then show ?thesis using trim_trim trim_rect trim_panic trimDoc_panic by simp
qed

subsection \<open>The groups of a match\<close>

text \<open>
  A match of a pattern ends in a call of the continuation, with captures that differ
  from the ones the match began with in the groups of the pattern only.
\<close>

lemma starG_frame: "starG p b s k = Some res \<Longrightarrow> \<exists>st'. k st' = Some res"
  by (induction s arbitrary: b) (auto split: if_splits option.splits)

lemma starL_frame: "starL p b s k = Some res \<Longrightarrow> \<exists>st'. k st' = Some res"
  by (induction s arbitrary: b) (auto split: if_splits option.splits)

lemma oneOf_frame: "oneOf p st k = Some res \<Longrightarrow> \<exists>st'. k st' = Some res"
  by (auto simp: oneOf_def split: list.splits if_splits)

lemma mt_frame:
  "mt r st cs k = Some res \<Longrightarrow>
   \<exists>st' cs'. k st' cs' = Some res \<and> (\<forall>n. n \<notin> grps r \<longrightarrow> map_of cs' n = map_of cs n)"
proof (induction r arbitrary: st cs k)
  case (Lit l)
  then have "k (if l = [] then fst st else Some (last l), drop (length l) (snd st)) cs = Some res"
    by (simp split: if_splits)
  then show ?case by (intro exI[of _ "(if l = [] then fst st else Some (last l), drop (length l) (snd st))"]
        exI[of _ cs]) simp
next
  case (One p)
  then show ?case using oneOf_frame by fastforce
next
  case (Star p)
  then show ?case using starG_frame by fastforce
next
  case (Plus p)
  from Plus obtain st1 where "starG p (fst st1) (snd st1) (\<lambda>st''. k st'' cs) = Some res"
    using oneOf_frame by fastforce
  then show ?case using starG_frame by fastforce
next
  case (LazyStar p)
  then show ?case using starL_frame by fastforce
next
  case Bol
  then have "k st cs = Some res" by (simp split: if_splits)
  then show ?case by (intro exI[of _ st] exI[of _ cs]) simp
next
  case Bot
  then have "k st cs = Some res" by (simp split: if_splits)
  then show ?case by (intro exI[of _ st] exI[of _ cs]) simp
next
  case Eot
  then have "k st cs = Some res" by (simp split: if_splits)
  then show ?case by (intro exI[of _ st] exI[of _ cs]) simp
next
  case (Opt r)
  show ?case
  proof (cases "mt r st cs k")
    case None
    then have "k st cs = Some res" using Opt.prems by simp
    then show ?thesis by (intro exI[of _ st] exI[of _ cs]) simp
  next
    case (Some x)
    then have "mt r st cs k = Some res" using Opt.prems by simp
    from Opt.IH[OF this] show ?thesis by simp
  qed
next
  case (Seq r1 r2)
  from Seq.prems have "mt r1 st cs (\<lambda>st' cs'. mt r2 st' cs' k) = Some res" by simp
  from Seq.IH(1)[OF this] obtain st1 cs1 where 1: "mt r2 st1 cs1 k = Some res"
    and f1: "\<forall>n. n \<notin> grps r1 \<longrightarrow> map_of cs1 n = map_of cs n" by blast
  from Seq.IH(2)[OF 1] obtain st2 cs2 where 2: "k st2 cs2 = Some res"
    and f2: "\<forall>n. n \<notin> grps r2 \<longrightarrow> map_of cs2 n = map_of cs1 n" by blast
  from f1 f2 have "\<forall>n. n \<notin> grps (Seq r1 r2) \<longrightarrow> map_of cs2 n = map_of cs n" by simp
  with 2 show ?case by blast
next
  case (Alt r1 r2)
  show ?case
  proof (cases "mt r1 st cs k")
    case None
    then have "mt r2 st cs k = Some res" using Alt.prems by simp
    from Alt.IH(2)[OF this] show ?thesis by auto
  next
    case (Some x)
    then have "mt r1 st cs k = Some res" using Alt.prems by simp
    from Alt.IH(1)[OF this] show ?thesis by auto
  qed
next
  case (Grp g r)
  from Grp.prems
  have "mt r st cs (\<lambda>st' cs'. k st' ((g, take (length (snd st) - length (snd st')) (snd st)) # cs'))
      = Some res" by simp
  from Grp.IH[OF this] obtain st1 cs1 where
    1: "k st1 ((g, take (length (snd st) - length (snd st1)) (snd st)) # cs1) = Some res"
    and f: "\<forall>n. n \<notin> grps r \<longrightarrow> map_of cs1 n = map_of cs n" by blast
  have "\<forall>n. n \<notin> grps (Grp g r)
      \<longrightarrow> map_of ((g, take (length (snd st) - length (snd st1)) (snd st)) # cs1) n = map_of cs n"
    using f by simp
  with 1 show ?case by blast
qed

lemma mt_Lit_Nil: "mt (Lit []) st cs k = k st cs"
  by simp

lemma take_prefix_two:
  assumes "take 2 s = l" "length l = 2"
  shows "take (length s - length (drop 2 s)) s = l"
proof -
  have "2 \<le> length s" using assms by (metis length_take min.cobounded1 min_def order_refl)
  then have "length s - length (drop 2 s) = 2" by simp
  then show ?thesis using assms(1) by simp
qed

lemma unit_group:
  assumes "mt (Grp g dimUnitRe) st cs k = Some res"
  shows "\<exists>st' u. u \<in> units \<and> k st' ((g, u) # cs) = Some res"
proof -
  let ?k = "\<lambda>st' cs'. k st' ((g, take (length (snd st) - length (snd st')) (snd st)) # cs')"
  have lit: "\<exists>st' u. u \<in> units \<and> k st' ((g, u) # cs) = Some res"
    if "mt (Lit l) st cs ?k = Some res" "l \<in> units" for l
  proof -
    have l2: "length l = 2" using that(2) by (auto simp: units_def)
    from that(1) have t: "take 2 (snd st) = l"
      and r: "?k (if l = [] then fst st else Some (last l), drop 2 (snd st)) cs = Some res"
      by (auto simp: l2 split: if_splits)
    from take_prefix_two[OF t l2] r that(2) show ?thesis by auto
  qed
  have u: "''mm'' \<in> units" "''cm'' \<in> units" "''in'' \<in> units" "''pt'' \<in> units"
    by (simp_all add: units_def)
  from assms have "mt (Alt (Lit ''mm'') (Alt (Lit ''cm'') (Alt (Lit ''in'') (Lit ''pt'')))) st cs ?k = Some res"
    by (simp add: dimUnitRe_def alts_def)
  then consider "mt (Lit ''mm'') st cs ?k = Some res" | "mt (Lit ''cm'') st cs ?k = Some res"
    | "mt (Lit ''in'') st cs ?k = Some res" | "mt (Lit ''pt'') st cs ?k = Some res"
    by (auto simp del: mt.simps(1) split: option.splits)
  then show ?thesis using lit u by cases blast+
qed

lemma dimRe_units:
  assumes "matchAt dimRe b s = Some parts"
  shows "parts ! 2 \<in> units \<and> parts ! 4 \<in> units"
proof -
  let ?P = "seqs [Bot, Star spaceCls, Grp 1 dimNumRe, Star spaceCls]"
  let ?Q = "seqs [Star spaceCls, Lit ''x'', Star spaceCls, Grp 3 dimNumRe, Star spaceCls]"
  let ?T = "seqs [Star spaceCls, Eot]"
  let ?K = "\<lambda>st' cs. Some (st', cs)"
  have g: "grps ?P = {1}" "grps ?Q = {3}" "grps ?T = {}"
    by (simp_all add: seqs_def dimNumRe_def)
  have split: "mt dimRe st cs k =
      mt ?P st cs (\<lambda>st1 cs1. mt (Grp 2 dimUnitRe) st1 cs1
        (\<lambda>st2 cs2. mt ?Q st2 cs2 (\<lambda>st3 cs3. mt (Grp 4 dimUnitRe) st3 cs3
          (\<lambda>st4 cs4. mt ?T st4 cs4 k))))" for st cs k
    by (simp add: dimRe_def seqs_def mt_Lit_Nil del: mt.simps(1,3,7,8,12))
  from assms obtain st' cs where m: "mt dimRe (b, s) [] ?K = Some (st', cs)"
    and parts: "parts = submatches dimRe (take (length s - length (snd st')) s) cs"
    by (auto simp: matchAt_def split: option.splits)
  from m[unfolded split] mt_frame obtain st1 cs1 where
    1: "mt (Grp 2 dimUnitRe) st1 cs1
        (\<lambda>st2 cs2. mt ?Q st2 cs2 (\<lambda>st3 cs3. mt (Grp 4 dimUnitRe) st3 cs3
          (\<lambda>st4 cs4. mt ?T st4 cs4 ?K))) = Some (st', cs)"
    by blast
  from unit_group[OF 1] obtain st2 u2 where u2: "u2 \<in> units"
    and 2: "mt ?Q st2 ((2, u2) # cs1) (\<lambda>st3 cs3. mt (Grp 4 dimUnitRe) st3 cs3
          (\<lambda>st4 cs4. mt ?T st4 cs4 ?K)) = Some (st', cs)"
    by blast
  from mt_frame[OF 2] obtain st3 cs3 where
    3: "mt (Grp 4 dimUnitRe) st3 cs3 (\<lambda>st4 cs4. mt ?T st4 cs4 ?K) = Some (st', cs)"
    and f3: "\<forall>n. n \<notin> grps ?Q \<longrightarrow> map_of cs3 n = map_of ((2, u2) # cs1) n"
    by blast
  from unit_group[OF 3] obtain st4 u4 where u4: "u4 \<in> units"
    and 4: "mt ?T st4 ((4, u4) # cs3) ?K = Some (st', cs)"
    by blast
  from mt_frame[OF 4] obtain st5 cs5 where 5: "?K st5 cs5 = Some (st', cs)"
    and f5: "\<forall>n. n \<notin> grps ?T \<longrightarrow> map_of cs5 n = map_of ((4, u4) # cs3) n"
    by blast
  from 5 have cs: "cs = cs5" by simp
  have m4: "map_of cs (Suc (Suc (Suc (Suc 0)))) = Some u4" using f5 by (simp add: cs g)
  have m2: "map_of cs (Suc (Suc 0)) = Some u2" using f5 f3 by (simp add: cs g)
  have "ngroups dimRe = 4" by (simp add: dimRe_def seqs_def dimNumRe_def dimUnitRe_def alts_def)
  then show ?thesis using u2 u4 by (simp add: parts submatches_def upt_rec m2 m4)
qed

lemma findFrom_matchAt: "findFrom r b s = Some m \<Longrightarrow> \<exists>b' s'. matchAt r b' s' = Some m"
proof (induction s arbitrary: b)
  case Nil
  then show ?case by (auto simp: findFrom.simps)
next
  case (Cons c s)
  then show ?case by (cases "matchAt r b (c # s)") (auto simp: findFrom.simps)
qed

lemma dimRe_found:
  "FindStringSubmatch dimRe s = Some parts \<Longrightarrow> parts ! 2 \<in> units \<and> parts ! 4 \<in> units"
  unfolding FindStringSubmatch_def using findFrom_matchAt dimRe_units by blast

subsection \<open>The smallest tile size\<close>

lemma minPageDimension_value: "minPageDimension = 3683 / 72"
  by (simp add: minPageDimension_def bleedMargin_def trimMargin_def trimMarkLineWidth_def
      mmInInch_def ptsInInch_def)

lemma minPageDimension_points:
  "minPageDimension * ptsInInch / mmInInch = 2 * (bleedMargin + trimMargin + trimMarkLineWidth)"
  by (simp add: minPageDimension_def bleedMargin_def trimMargin_def trimMarkLineWidth_def
      mmInInch_def ptsInInch_def)

lemma min32: "round32 minPageDimension = Fin (6704697 / 131072)"
  by (simp add: minPageDimension_value f32_eval)

lemma units_values:
  assumes "u \<in> units"
  shows "\<exists>c. unitsToMillimeter u = Fin c \<and> 0 < c"
proof -
  have "unitsToMillimeter ''mm'' = Fin 1" "unitsToMillimeter ''cm'' = Fin 10"
    "unitsToMillimeter ''in'' = Fin (13316915 / 524288)"
    "unitsToMillimeter ''pt'' = Fin (5918629 / 16777216)"
    by (simp_all add: unitsToMillimeter_def mmInCm_def mmInInch_def ptsInInch_def f32_eval)
  then show ?thesis using assms by (auto simp: units_def)
qed

lemma parse_not_NaN: "fst (ParseFloat32 s) \<noteq> NaN"
  by (simp add: ParseFloat32_def Let_def split: float32.splits)

lemma fmul_pos_not_NaN: "x \<noteq> NaN \<Longrightarrow> 0 < c \<Longrightarrow> fmul x (Fin c) \<noteq> NaN"
  by (cases x) simp_all

lemma not_flt_fle: "\<not> flt a (Fin c) \<Longrightarrow> a \<noteq> NaN \<Longrightarrow> fle (Fin c) a"
  by (cases a) simp_all

text \<open>The operations are monotone in their first operand, for a positive constant.\<close>

lemma fmul_mono: "fle a b \<Longrightarrow> 0 < c \<Longrightarrow> fle (fmul a (Fin c)) (fmul b (Fin c))"
proof (cases a; cases b)
  fix x y assume "a = Fin x" "b = Fin y" "fle a b" "0 < c"
  then show ?thesis using round32_mono[of "x * c" "y * c"] by simp
next
  fix x assume "a = Fin x" "b = PosInf" "0 < c"
  then show ?thesis by (cases "round32 (x * c)") simp_all
next
  fix y assume "a = NegInf" "b = Fin y" "0 < c"
  then show ?thesis by (cases "round32 (y * c)") simp_all
qed simp_all

lemma fdiv_mono: "fle a b \<Longrightarrow> 0 < c \<Longrightarrow> fle (fdiv a (Fin c)) (fdiv b (Fin c))"
proof (cases a; cases b)
  fix x y assume "a = Fin x" "b = Fin y" "fle a b" "0 < c"
  then show ?thesis using round32_mono[of "x / c" "y / c"] by (simp add: divide_right_mono)
next
  fix x assume "a = Fin x" "b = PosInf" "0 < c"
  then show ?thesis by (cases "round32 (x / c)") simp_all
next
  fix y assume "a = NegInf" "b = Fin y" "0 < c"
  then show ?thesis by (cases "round32 (y / c)") simp_all
qed simp_all

lemma fsub_mono: "fle a b \<Longrightarrow> fle (fsub a (Fin c)) (fsub b (Fin c))"
proof (cases a; cases b)
  fix x y assume "a = Fin x" "b = Fin y" "fle a b"
  then show ?thesis using round32_mono[of "x - c" "y - c"] by (simp add: fsub_Fin)
next
  fix x assume "a = Fin x" "b = PosInf"
  then show ?thesis by (cases "round32 (x - c)") (simp_all add: fsub_def)
next
  fix y assume "a = NegInf" "b = Fin y"
  then show ?thesis by (cases "round32 (y - c)") (simp_all add: fsub_def)
qed (simp_all add: fsub_def)

lemma target_consts:
  "round32 ptsInInch = Fin 72" "round32 mmInInch = Fin (13316915 / 524288)"
  "round32 ((bleedMargin + trimMargin) * 2) = Fin 144"
  by (simp_all add: ptsInInch_def mmInInch_def bleedMargin_def trimMargin_def f32_eval)

lemma tileTarget_mono: "fle a b \<Longrightarrow> fle (tileTarget a) (tileTarget b)"
  unfolding tileTarget_def target_consts
  by (intro fsub_mono fdiv_mono fmul_mono) simp_all

lemma tileTarget_min: "tileTarget (Fin (6704697 / 131072)) = Fin 1"
  unfolding tileTarget_def target_consts by (simp add: fsub_Fin f32_eval)

lemma tileTarget_ge:
  assumes "fle (round32 minPageDimension) w"
  shows "fle (Fin (2 * trimMarkLineWidth)) (tileTarget w)"
  using tileTarget_mono[OF assms[unfolded min32]]
  by (simp add: tileTarget_min trimMarkLineWidth_def)

lemma checkMin_None:
  assumes "checkMin u = (v', None)" "width u \<noteq> NaN" "height u \<noteq> NaN"
  shows "v' = u \<and> fle (round32 minPageDimension) (width u) \<and> fle (round32 minPageDimension) (height u)"
  using assms unfolding min32 checkMin_def by (auto split: if_splits intro: not_flt_fle)

lemma Set_flag_accepted:
  assumes "Set_flag fromName v s = (v', None)"
  shows "\<exists>u. checkMin u = (v', None) \<and> width u \<noteq> NaN \<and> height u \<noteq> NaN"
proof (cases "fromName s")
  case (Some t)
  then obtain n w h where t: "t = (n, w, h)" by (cases t) auto
  let ?u = "v\<lparr>name := n, width := round32 w, height := round32 h, isDim := False\<rparr>"
  have "checkMin ?u = (v', None)" using assms by (simp add: Set_flag_def Some t)
  then show ?thesis by (intro exI[of _ ?u]) simp
next
  case None
  show ?thesis
  proof (cases "FindStringSubmatch dimRe s")
    case n: None
    then show ?thesis using assms None by (simp add: Set_flag_def)
  next
    case (Some parts)
    let ?u = "v\<lparr>name := parts ! 1 @ parts ! 2 @ ''x'' @ parts ! 3 @ parts ! 4,
                  width := fmul (fst (ParseFloat32 (parts ! 1))) (unitsToMillimeter (parts ! 2)),
                  height := fmul (fst (ParseFloat32 (parts ! 3))) (unitsToMillimeter (parts ! 4)),
                  isDim := True\<rparr>"
    have c: "checkMin ?u = (v', None)" using assms None Some by (simp add: Set_flag_def)
    from dimRe_found[OF Some] units_values obtain c2 c4 where
      u: "unitsToMillimeter (parts ! 2) = Fin c2" "0 < c2" "unitsToMillimeter (parts ! 4) = Fin c4" "0 < c4"
      by blast
    have "width ?u \<noteq> NaN" "height ?u \<noteq> NaN"
      using u by (simp_all add: fmul_pos_not_NaN parse_not_NaN)
    with c show ?thesis by (intro exI[of _ ?u]) simp
  qed
qed

lemmas set_eval = Set_flag_def checkMin_def noPaper_def zeroFlag_def unitsToMillimeter_def dimRe_def
  dimNumRe_def dimUnitRe_def mmInInch_def ptsInInch_def mmInCm_def

lemma dim_145: "FindStringSubmatch dimRe ''145pt x 145pt'' = Some [''145pt x 145pt'', ''145'', ''pt'', ''145'', ''pt'']"
  by (simp add: re_eval set_eval cong: weak_congs)

lemma set_145:
  "Set_flag noPaper zeroFlag ''145pt x 145pt''
     = (\<lparr>name = ''145ptx145pt'', width = Fin (6704697 / 131072), height = Fin (6704697 / 131072),
          isDim = True\<rparr>, None)"
  by (simp add: Set_flag_def noPaper_def dim_145 num_eval checkMin_def zeroFlag_def
      unitsToMillimeter_def minPageDimension_value mmInInch_def ptsInInch_def)

lemma dim_51: "FindStringSubmatch dimRe ''51.152777mm x 60mm''
    = Some [''51.152777mm x 60mm'', ''51.152777'', ''mm'', ''60'', ''mm'']"
  by (simp add: re_eval set_eval cong: weak_congs)

lemma set_51:
  "Set_flag noPaper zeroFlag ''51.152777mm x 60mm''
     = (\<lparr>name = ''51.152777mmx60mm'', width = Fin (6704697 / 131072), height = Fin 60,
          isDim = True\<rparr>, None)"
  by (simp add: Set_flag_def noPaper_def dim_51 num_eval checkMin_def zeroFlag_def
      unitsToMillimeter_def minPageDimension_value mmInInch_def ptsInInch_def)

lemma parse_51: "fst (ParseFloat32 ''51.152777'') = Fin (6704697 / 131072)"
  by (simp add: num_eval)

lemma decimal_51: "decimalVal ''51.152777'' = 51152777 / 1000000"
  by (simp add: num_eval)

lemma dim_6cm: "FindStringSubmatch dimRe ''6cm x 12in'' = Some [''6cm x 12in'', ''6'', ''cm'', ''12'', ''in'']"
  by (simp add: re_eval set_eval cong: weak_congs)

lemma set_6cm:
  "Set_flag noPaper zeroFlag ''6cm x 12in''
     = (\<lparr>name = ''6cmx12in'', width = Fin 60, height = Fin (4993843 / 16384), isDim = True\<rparr>, None)"
  by (simp add: Set_flag_def noPaper_def dim_6cm num_eval checkMin_def zeroFlag_def
      unitsToMillimeter_def minPageDimension_value mmInInch_def mmInCm_def)

lemma dim_5cm: "FindStringSubmatch dimRe ''5cm x 12in'' = Some [''5cm x 12in'', ''5'', ''cm'', ''12'', ''in'']"
  by (simp add: re_eval set_eval cong: weak_congs)

lemma set_5cm:
  "snd (Set_flag noPaper zeroFlag ''5cm x 12in'')
     = Some ''min. tile dimension is 51.152778mm x 51.152778mm''"
  by (simp add: Set_flag_def noPaper_def dim_5cm num_eval checkMin_def zeroFlag_def
      unitsToMillimeter_def minPageDimension_value mmInInch_def mmInCm_def)

text \<open>
  Claim C7. When \<^verbatim>\<open>Set\<close> returns no error, the width and the height that the flag
  holds, which are the numbers of the specification times the factors of their units
  in the arithmetic of \<^verbatim>\<open>float32\<close>, are at least \<open>minPageDimension\<close> rounded to
  \<^verbatim>\<open>float32\<close>; \<open>minPageDimension\<close> is \<open>2 * (bleedMargin + trimMargin + trimMarkLineWidth)\<close>
  in millimetres. The tile without its margins, as \<^verbatim>\<open>process\<close> computes it, is then at
  least twice the width of a trim mark line (one point) wide and high. Hence a size
  whose width or height is held as a number below the rounded minimum is rejected.
\<close>

theorem C7_min_dimension:
  assumes "Set_flag fromName v s = (v', None)"
  shows "fle (round32 minPageDimension) (width v') \<and> fle (round32 minPageDimension) (height v')
       \<and> round32 minPageDimension = Fin (6704697 / 131072)
       \<and> minPageDimension * ptsInInch / mmInInch = 2 * (bleedMargin + trimMargin + trimMarkLineWidth)
       \<and> fle (Fin (2 * trimMarkLineWidth)) (tileTarget (width v'))
       \<and> fle (Fin (2 * trimMarkLineWidth)) (tileTarget (height v'))"
proof -
  from Set_flag_accepted[OF assms] obtain u where "checkMin u = (v', None)" "width u \<noteq> NaN"
    "height u \<noteq> NaN" by blast
  from checkMin_None[OF this]
  have w: "fle (round32 minPageDimension) (width v')" "fle (round32 minPageDimension) (height v')"
    by simp_all
  show ?thesis
    using w min32 minPageDimension_points tileTarget_ge[OF w(1)] tileTarget_ge[OF w(2)]
    by (intro conjI)
qed

theorem C7_witness:
  "Set_flag noPaper zeroFlag ''6cm x 12in''
     = (\<lparr>name = ''6cmx12in'', width = Fin 60, height = Fin (4993843 / 16384), isDim = True\<rparr>, None)
   \<and> fle (round32 minPageDimension) (Fin 60) \<and> fle (round32 minPageDimension) (Fin (4993843 / 16384))
   \<and> fle (Fin (2 * trimMarkLineWidth)) (tileTarget (Fin 60))
   \<and> snd (Set_flag noPaper zeroFlag ''5cm x 12in'') \<noteq> None"
  using C7_min_dimension[OF set_6cm] set_6cm set_5cm by simp

text \<open>
  A size of exactly the minimum, 145 points, does not exceed it and is accepted: the
  check of the source is \<^verbatim>\<open>v.width < minPageDimension\<close>. A width of 51.152777
  millimetres, which is below the minimum, is accepted as well: the nearest \<^verbatim>\<open>float32\<close>
  is the one nearest to the minimum.
\<close>

theorem C7_counterexample:
  "snd (Set_flag noPaper zeroFlag ''145pt x 145pt'') = None
   \<and> width (fst (Set_flag noPaper zeroFlag ''145pt x 145pt'')) = round32 minPageDimension
   \<and> 145 * mmInInch / ptsInInch = minPageDimension
   \<and> 2 * (bleedMargin + trimMargin + trimMarkLineWidth) = 145
   \<and> snd (Set_flag noPaper zeroFlag ''51.152777mm x 60mm'') = None
   \<and> decimalVal ''51.152777'' < minPageDimension"
proof -
  have "145 * mmInInch / ptsInInch = minPageDimension"
    "2 * (bleedMargin + trimMargin + trimMarkLineWidth) = 145"
    "decimalVal ''51.152777'' < minPageDimension"
    by (simp_all add: decimal_51 minPageDimension_value ptsInInch_def mmInInch_def
        bleedMargin_def trimMargin_def trimMarkLineWidth_def)
  then show ?thesis by (simp add: set_145 set_51 min32)
qed

end
